theory Spec2Isabelle
  imports Main
begin

section \<open>Strings\<close>

text \<open>
  A Go string is modelled by the list of its characters; \<open>char\<close> stands for one character
  (rune) of the text, so the model covers texts whose characters fit in one byte.
\<close>

definition newline :: char where
  "newline = CHR 0x0A"

definition isDigit :: "char \<Rightarrow> bool" where
  \<comment> \<open>the class \<open>\d\<close> of Go's regexp syntax: the ASCII digits\<close>
  "isDigit c = (c \<in> set ''0123456789'')"

definition isSpace :: "char \<Rightarrow> bool" where
  \<comment> \<open>\<open>unicode.IsSpace\<close> on the characters below 256: tab, line feed, vertical tab, form
      feed, carriage return, space, next line (U+0085) and no-break space (U+00A0)\<close>
  "isSpace c = (c \<in> {CHR 0x09, CHR 0x0A, CHR 0x0B, CHR 0x0C, CHR 0x0D, CHR 0x20, CHR 0x85, CHR 0xA0})"

definition strings_TrimSpace :: "string \<Rightarrow> string" where
  "strings_TrimSpace s = rev (dropWhile isSpace (rev (dropWhile isSpace s)))"

definition strings_TrimPrefix :: "string \<Rightarrow> string \<Rightarrow> string" where
  "strings_TrimPrefix s pre =
     (if take (length pre) s = pre then drop (length pre) s else s)"

definition strings_TrimSuffix :: "string \<Rightarrow> string \<Rightarrow> string" where
  "strings_TrimSuffix s suf =
     (if length suf \<le> length s \<and> drop (length s - length suf) s = suf
      then take (length s - length suf) s else s)"

fun strings_Split :: "string \<Rightarrow> char \<Rightarrow> string list" where
  \<comment> \<open>\<open>strings.Split(s, sep)\<close> for a separator of one character: the pieces between the
      separators, one more than there are separators\<close>
  "strings_Split [] sep = [[]]"
| "strings_Split (c # cs) sep =
     (if c = sep then [] # strings_Split cs sep
      else (case strings_Split cs sep of
              [] \<Rightarrow> [[c]]
            | piece # pieces \<Rightarrow> (c # piece) # pieces))"

fun strings_Join :: "string list \<Rightarrow> string \<Rightarrow> string" where
  "strings_Join [] sep = []"
| "strings_Join [x] sep = x"
| "strings_Join (x # y # ys) sep = x @ sep @ strings_Join (y # ys) sep"

fun strings_ReplaceAll :: "string \<Rightarrow> string \<Rightarrow> string \<Rightarrow> string" where
  \<comment> \<open>\<open>strings.ReplaceAll(s, old, new)\<close> for a non-empty \<open>old\<close>: every occurrence replaced,
      left to right, none overlapping another\<close>
  "strings_ReplaceAll [] old new = []"
| "strings_ReplaceAll (c # cs) old new =
     (if old \<noteq> [] \<and> take (length old) (c # cs) = old
      then new @ strings_ReplaceAll (drop (length old) (c # cs)) old new
      else c # strings_ReplaceAll cs old new)"

definition digitChar :: "nat \<Rightarrow> char" where
  "digitChar d = char_of (48 + d)"

fun itoa :: "nat \<Rightarrow> string" where
  \<comment> \<open>the verb \<open>%d\<close> on a non-negative \<open>int\<close>: decimal, no leading zero\<close>
  "itoa n = (if n < 10 then [digitChar n] else itoa (n div 10) @ [digitChar (n mod 10)])"

declare itoa.simps [simp del]

section \<open>Paths\<close>

definition cleanStep :: "bool \<Rightarrow> string list \<Rightarrow> string \<Rightarrow> string list" where
  \<comment> \<open>one path element of \<open>filepath.Clean\<close>: \<open>..\<close> removes the element before it when there
      is one to remove, is dropped at the root, and is kept otherwise\<close>
  "cleanStep rooted out e =
     (if e = ''..''
      then (if out \<noteq> [] \<and> last out \<noteq> ''..'' then butlast out
            else if rooted then out else out @ [''..''])
      else out @ [e])"

definition Clean :: "string \<Rightarrow> string" where
  \<comment> \<open>\<open>filepath.Clean\<close> with the separator \<open>/\<close>\<close>
  "Clean path =
     (if path = [] then ''.''
      else let rooted = (hd path = CHR ''/'');
               elems = filter (\<lambda>e. e \<noteq> [] \<and> e \<noteq> ''.'') (strings_Split path (CHR ''/''));
               out = (if rooted then ''/'' else []) @ strings_Join (foldl (cleanStep rooted) [] elems) ''/''
           in if out = [] then ''.'' else out)"

definition Join :: "string list \<Rightarrow> string" where
  \<comment> \<open>\<open>filepath.Join\<close>: the elements from the first non-empty one on, joined and cleaned\<close>
  "Join elem =
     (case dropWhile (\<lambda>e. e = []) elem of
        [] \<Rightarrow> []
      | e # es \<Rightarrow> Clean (strings_Join (e # es) ''/''))"

section \<open>Formatting with no operands\<close>

text \<open>
  \<open>CheckSoName\<close> passes the text of an error to \<open>fmt.Errorf\<close> as the format, with no
  operands. The functions below follow \<open>fmt\<close>'s scan of a format in that case: text is
  copied up to a percent sign; after it come flags, an argument index, a width, a
  precision and the verb; \<open>%%\<close> gives a percent sign, and every other verb reports its
  missing operand.
\<close>

fun parsenum :: "int \<Rightarrow> bool \<Rightarrow> string \<Rightarrow> bool \<times> string" where
  \<comment> \<open>the digits at the head of the text: whether there was one, and the text after them;
      a number beyond \<open>10^6\<close> abandons the rest of the text\<close>
  "parsenum num isnum [] = (isnum, [])"
| "parsenum num isnum (c # cs) =
     (if isDigit c
      then (if 1000000 < num then (False, [])
            else parsenum (num * 10 + (of_char c - 48)) True cs)
      else (isnum, c # cs))"

definition parseArgNumber :: "string \<Rightarrow> nat \<times> bool" where
  \<comment> \<open>on a text that starts with \<open>[\<close>: how many characters the index takes, and whether
      it reads \<open>[n]\<close>\<close>
  "parseArgNumber s =
     (if length s < 3 then (1, False)
      else let inside = takeWhile (\<lambda>c. c \<noteq> CHR '']'') (tl s)
           in if length inside = length (tl s) then (1, False)
              else (length inside + 2, parsenum 0 False inside = (True, [])))"

definition argNumber :: "string \<Rightarrow> string \<times> bool \<times> bool" where
  \<comment> \<open>an optional argument index: the text after it, whether there was a bracket (with no
      operands every index is out of range), and whether it was well formed\<close>
  "argNumber s =
     (case s of
        [] \<Rightarrow> (s, False, False)
      | c # cs \<Rightarrow>
          (if c = CHR ''[''
           then (let (wid, ok) = parseArgNumber s in (drop wid s, True, ok))
           else (s, False, False)))"

definition isFlag :: "char \<Rightarrow> bool" where
  "isFlag c = (c \<in> set ''#0+- '')"

definition widthStage :: "string \<Rightarrow> bool \<Rightarrow> bool \<Rightarrow> string \<times> string \<times> bool \<times> bool" where
  \<comment> \<open>the width: what is printed, the text after it, whether the argument index is bad so
      far, whether an index was the last thing read\<close>
  "widthStage s bad afterIndex =
     (case s of
        [] \<Rightarrow> ([], [], bad, afterIndex)
      | c # r \<Rightarrow>
          (if c = CHR ''*'' then (''%!(BADWIDTH)'', r, bad, False)
           else (let (present, r') = parsenum 0 False s
                 in ([], r', bad \<or> (afterIndex \<and> present), afterIndex))))"

definition precStage :: "string \<Rightarrow> bool \<Rightarrow> bool \<Rightarrow> string \<times> string \<times> bool \<times> bool" where
  \<comment> \<open>the precision, when a dot follows that is not the last character of the format (a
      dot that ends the format is left to be read as the verb)\<close>
  "precStage s bad afterIndex =
     (case s of
        [] \<Rightarrow> ([], [], bad, afterIndex)
      | c # r \<Rightarrow>
          (if c = CHR ''.'' \<and> r \<noteq> []
           then (let (r1, b, a) = argNumber r;
                     bad' = (bad \<or> afterIndex \<or> b)
                 in (case r1 of
                       [] \<Rightarrow> ([], [], bad', a)
                     | c1 # r2 \<Rightarrow>
                         (if c1 = CHR ''*'' then (''%!(BADPREC)'', r2, bad', False)
                          else ([], snd (parsenum 0 False r1), bad', a))))
           else ([], s, bad, afterIndex)))"

definition verb0 :: "string \<Rightarrow> string \<times> string" where
  \<comment> \<open>one directive, the percent sign already read: what is printed for it and the text
      that follows it\<close>
  "verb0 s0 =
     (let s1 = dropWhile isFlag s0;
          (s2, bad1, after1) = argNumber s1;
          (out1, s3, bad2, after2) = widthStage s2 bad1 after1;
          (out2, s4, bad3, after3) = precStage s3 bad2 after2;
          (s5, bad4) =
             (if after3 then (s4, bad3)
              else (let (r, b, a) = argNumber s4 in (r, bad3 \<or> b)))
      in case s5 of
           [] \<Rightarrow> (out1 @ out2 @ ''%!(NOVERB)'', [])
         | verb # rest \<Rightarrow>
             (out1 @ out2 @
                (if verb = CHR ''%'' then ''%''
                 else if bad4 then ''%!'' @ [verb] @ ''(BADINDEX)''
                 else ''%!'' @ [verb] @ ''(MISSING)''),
              rest))"

lemma parsenum_length: "length (snd (parsenum n b s)) \<le> length s"
  by (induction n b s rule: parsenum.induct) auto

lemma argNumber_length: "argNumber s = (r, b, a) \<Longrightarrow> length r \<le> length s"
  by (auto simp: argNumber_def split: list.splits if_splits prod.splits)

lemma widthStage_length: "widthStage s b a = (out, r, b', a') \<Longrightarrow> length r \<le> length s"
  using parsenum_length [of 0 False s]
  by (auto simp: widthStage_def split: list.splits if_splits prod.splits)

lemma precStage_length:
  assumes "precStage s b a = (out, r, b', a')"
  shows "length r \<le> length s"
proof (cases s)
  case Nil
  with assms show ?thesis by (simp add: precStage_def)
next
  case (Cons c cs)
  show ?thesis
  proof (cases "c = CHR ''.'' \<and> cs \<noteq> []")
    case False
    with assms Cons show ?thesis by (auto simp: precStage_def)
  next
    case True
    obtain r1 b1 a1 where an: "argNumber cs = (r1, b1, a1)" by (cases "argNumber cs") auto
    from argNumber_length [OF an] have l1: "length r1 \<le> length cs" .
    have "length r \<le> length r1"
      using assms Cons True an parsenum_length [of 0 False r1]
      by (auto simp: precStage_def Let_def split: list.splits if_splits)
    with l1 Cons show ?thesis by simp
  qed
qed

lemma verb0_length: "length (snd (verb0 s)) \<le> length s"
proof -
  obtain s2 bad1 after1 where s2: "argNumber (dropWhile isFlag s) = (s2, bad1, after1)"
    by (cases "argNumber (dropWhile isFlag s)") auto
  obtain out1 s3 bad2 after2 where s3: "widthStage s2 bad1 after1 = (out1, s3, bad2, after2)"
    by (cases "widthStage s2 bad1 after1") auto
  obtain out2 s4 bad3 after3 where s4: "precStage s3 bad2 after2 = (out2, s4, bad3, after3)"
    by (cases "precStage s3 bad2 after2") auto
  obtain r b a where s5: "argNumber s4 = (r, b, a)" by (cases "argNumber s4") auto
  have "length s4 \<le> length s"
    using argNumber_length [OF s2] widthStage_length [OF s3] precStage_length [OF s4]
      length_dropWhile_le [of isFlag s] by simp
  moreover have "length r \<le> length s4" by (rule argNumber_length [OF s5])
  ultimately show ?thesis
    using s2 s3 s4 s5 by (auto simp: verb0_def split: list.splits)
qed

function Sprintf0 :: "string \<Rightarrow> string" where
  \<comment> \<open>\<open>fmt.Sprintf(format)\<close> with no operands, which is also the text of the error that
      \<open>fmt.Errorf(format)\<close> returns\<close>
  "Sprintf0 [] = []"
| "Sprintf0 (c # cs) =
     (if c = CHR ''%'' then (case verb0 cs of (out, rest) \<Rightarrow> out @ Sprintf0 rest)
      else c # Sprintf0 cs)"
  by pat_completeness auto
termination
proof (relation "measure length")
  fix c :: char and cs out rest
  assume "(out, rest) = verb0 cs"
  then have "rest = snd (verb0 cs)" by (metis snd_conv)
  then show "(rest, c # cs) \<in> measure length"
    using verb0_length [of cs] by simp
qed auto

section \<open>The pattern \<open>.so.*\d\<close>\<close>

text \<open>
  Both \<open>getSonameFiles\<close> and \<open>checkSonamesMatch\<close> compile the pattern \<open>.so.*\d\<close>. In Go's
  regexp syntax the dot is any character but the newline, the star is greedy, and the
  search returns the leftmost match, preferring for that start what a backtracking
  matcher finds first.
\<close>

definition starDigit :: "string \<Rightarrow> string option" where
  \<comment> \<open>\<open>.*\d\<close> at the head of the text: the greedy star runs to the end of the line and
      gives characters back until a digit follows\<close>
  "starDigit s =
     (let line = takeWhile (\<lambda>c. c \<noteq> newline) s;
          r = dropWhile (\<lambda>c. \<not> isDigit c) (rev line)
      in if r = [] then None else Some (rev r))"

fun matchHere :: "string \<Rightarrow> string option" where
  \<comment> \<open>the text matched by \<open>.so.*\d\<close> when the match starts at the head of the text\<close>
  "matchHere (c # c1 # c2 # rest) =
     (if c \<noteq> newline \<and> c1 = CHR ''s'' \<and> c2 = CHR ''o''
      then (case starDigit rest of None \<Rightarrow> None | Some t \<Rightarrow> Some (c # c1 # c2 # t))
      else None)"
| "matchHere _ = None"

fun findMatch :: "string \<Rightarrow> (string \<times> string \<times> string) option" where
  \<comment> \<open>the leftmost match: the text before it, the match, the text after it\<close>
  "findMatch [] = None"
| "findMatch (c # cs) =
     (case matchHere (c # cs) of
        Some m \<Rightarrow> Some ([], m, drop (length m) (c # cs))
      | None \<Rightarrow> (case findMatch cs of None \<Rightarrow> None
                 | Some (b, m, a) \<Rightarrow> Some (c # b, m, a)))"

definition reg_FindString :: "string \<Rightarrow> string" where
  \<comment> \<open>\<open>reg.FindString\<close>: the leftmost match, the empty string when there is none\<close>
  "reg_FindString s = (case findMatch s of None \<Rightarrow> [] | Some (b, m, a) \<Rightarrow> m)"

lemma matchHere_length: "matchHere s = Some m \<Longrightarrow> 4 \<le> length m \<and> length m \<le> length s"
proof (induction s rule: matchHere.induct)
  case (1 c c1 c2 rest)
  then obtain t where t: "starDigit rest = Some t" and m: "m = c # c1 # c2 # t"
    by (auto split: if_splits option.splits)
  let ?line = "takeWhile (\<lambda>c. c \<noteq> newline) rest"
  let ?r = "dropWhile (\<lambda>c. \<not> isDigit c) (rev ?line)"
  from t have r: "?r \<noteq> []" and tr: "t = rev ?r"
    by (auto simp: starDigit_def Let_def split: if_splits)
  have "length ?r \<le> length (rev ?line)" by (rule length_dropWhile_le)
  also have "\<dots> \<le> length rest" by (simp add: length_takeWhile_le)
  finally have "length t \<le> length rest" using tr by simp
  moreover have "1 \<le> length t" using r tr by (cases ?r) auto
  ultimately show ?case using m by simp
qed simp_all

lemma findMatch_shorter: "findMatch s = Some (b, m, a) \<Longrightarrow> length a < length s"
proof (induction s arbitrary: b m a)
  case Nil
  then show ?case by simp
next
  case (Cons c cs)
  show ?case
  proof (cases "matchHere (c # cs)")
    case (Some m')
    with Cons.prems have "a = drop (length m') (c # cs)" by auto
    moreover from matchHere_length [OF Some] have "4 \<le> length m'" by simp
    ultimately show ?thesis by simp
  next
    case None
    with Cons.prems obtain b' where "findMatch cs = Some (b', m, a)"
      by (auto split: option.splits)
    from Cons.IH [OF this] show ?thesis by simp
  qed
qed

function reg_FindAllString :: "string \<Rightarrow> string list" where
  \<comment> \<open>\<open>reg.FindAllString(s, -1)\<close>: the successive matches, none overlapping another\<close>
  "reg_FindAllString s =
     (case findMatch s of None \<Rightarrow> [] | Some (b, m, a) \<Rightarrow> m # reg_FindAllString a)"
  by pat_completeness auto
termination
  by (relation "measure length") (auto dest: findMatch_shorter)

function reg_Split :: "string \<Rightarrow> string list" where
  \<comment> \<open>\<open>reg.Split(s, -1)\<close>: the pieces of the text between the matches; the text itself
      when nothing matches\<close>
  "reg_Split s =
     (case findMatch s of None \<Rightarrow> [s] | Some (b, m, a) \<Rightarrow> b # reg_Split a)"
  by pat_completeness auto
termination
  by (relation "measure length") (auto dest: findMatch_shorter)

declare reg_FindAllString.simps [simp del] reg_Split.simps [simp del]

section \<open>Scanning a directory for soname files\<close>

definition Base :: "string \<Rightarrow> string" where
  \<comment> \<open>\<open>filepath.Base\<close> (separator \<open>/\<close>, no volume names): the last element of the path,
      trailing separators removed first\<close>
  "Base path =
     (if path = [] then ''.''
      else let stripped = rev (dropWhile (\<lambda>c. c = CHR ''/'') (rev path));
               lastElem = rev (takeWhile (\<lambda>c. c \<noteq> CHR ''/'') (rev stripped))
           in if lastElem = [] then ''/'' else lastElem)"

definition isSonameFile :: "string \<Rightarrow> bool" where
  \<comment> \<open>the test of the walk function: \<open>reg.FindString(filepath.Base(path)) != ""\<close>\<close>
  "isSonameFile path = (reg_FindString (Base path) \<noteq> [])"

definition sonameFileList :: "string list \<Rightarrow> string list" where
  \<comment> \<open>the list \<open>fileList\<close> that the walk function of \<open>getSonameFiles\<close> builds from the
      paths it is called on, in the order of the walk\<close>
  "sonameFileList visited = filter isSonameFile visited"

section \<open>Comparing soname lists\<close>

datatype fault = IndexOutOfRange

definition index0 :: "'a list \<Rightarrow> fault + 'a" where
  \<comment> \<open>the slice expression \<open>xs[0]\<close>: a run-time panic on an empty slice\<close>
  "index0 xs = (case xs of [] \<Rightarrow> Inl IndexOutOfRange | x # _ \<Rightarrow> Inr x)"

definition splitSoname :: "string \<Rightarrow> fault + (string \<times> string)" where
  \<comment> \<open>\<open>name := reg.Split(filename, -1)[0]; version := reg.FindAllString(filename, -1)[0]\<close>\<close>
  "splitSoname filename =
     (case index0 (reg_Split filename) of
        Inl e \<Rightarrow> Inl e
      | Inr name \<Rightarrow>
          (case index0 (reg_FindAllString filename) of
             Inl e \<Rightarrow> Inl e
           | Inr version \<Rightarrow> Inr (name, version)))"

fun existingSonameMap :: "string list \<Rightarrow> (string \<rightharpoonup> string) \<Rightarrow> fault + (string \<rightharpoonup> string)" where
  \<comment> \<open>the first loop of \<open>checkSonamesMatch\<close>; the second argument is the map so far\<close>
  "existingSonameMap [] m = Inr m"
| "existingSonameMap (filename # rest) m =
     (case splitSoname filename of
        Inl e \<Rightarrow> Inl e
      | Inr (name, version) \<Rightarrow> existingSonameMap rest (m(name \<mapsto> version)))"

definition mapIndex :: "(string \<rightharpoonup> string) \<Rightarrow> string \<Rightarrow> string" where
  \<comment> \<open>\<open>m[key]\<close> on a Go \<open>map[string]string\<close>: the empty string for a missing key\<close>
  "mapIndex m key = (case m key of None \<Rightarrow> [] | Some v \<Rightarrow> v)"

definition sonameError :: "string \<Rightarrow> string \<Rightarrow> string \<Rightarrow> string" where
  "sonameError name existingVersion version =
     ''soname version check failed, '' @ name @ '' has an existing version '' @ existingVersion
       @ '' while new package contains a different version '' @ version
       @ ''.  This can cause ABI failures''"

fun compareSonames :: "(string \<rightharpoonup> string) \<Rightarrow> string list \<Rightarrow> fault + string option" where
  \<comment> \<open>the second loop of \<open>checkSonamesMatch\<close>; \<open>None\<close> is the \<open>nil\<close> error\<close>
  "compareSonames m [] = Inr None"
| "compareSonames m (filename # rest) =
     (case splitSoname filename of
        Inl e \<Rightarrow> Inl e
      | Inr (name, version) \<Rightarrow>
          (let existingVersion = mapIndex m name
           in if existingVersion = [] then compareSonames m rest
              else if existingVersion \<noteq> version
              then Inr (Some (sonameError name existingVersion version))
              else compareSonames m rest))"

definition checkSonamesMatch :: "string list \<Rightarrow> string list \<Rightarrow> fault + string option" where
  "checkSonamesMatch existingSonameFiles newSonameFiles =
     (case existingSonameMap existingSonameFiles Map.empty of
        Inl e \<Rightarrow> Inl e
      | Inr m \<Rightarrow> compareSonames m newSonameFiles)"

section \<open>Options, packages and the world outside\<close>

record SoNameOptions =
  PackageListFilename :: string
  Dir :: string
  PackagesDir :: string
  ApkIndexURL :: string

record NewApkPackage =
  Arch :: string
  Epoch :: string
  Version :: string

text \<open>Of \<open>repository.Package\<close> the check reads the name and the version.\<close>

record Package =
  Name :: string
  PkgVersion :: string

text \<open>
  What the check does to the world outside is recorded as a trace of events, oldest
  first: the files it opens, the archives it unpacks and where, the directories it
  walks, the URLs it requests, the files it creates and writes, and the lines it logs
  (\<open>LoggerPrintf\<close> through \<open>o.Logger\<close>, \<open>LogPrintf\<close> through the standard logger).
\<close>

datatype event =
    Open string
  | Untar string string
  | Walk string
  | Get string
  | Create string
  | Copy string
  | LoggerPrintf string
  | LogPrintf string

text \<open>
  The operating system, the network and the packages \<open>tar\<close>, \<open>melange\<close> and \<open>apk\<close> are
  parameters of the model. An error is the text of the error. \<open>'fs\<close> is the state of
  the file system.
\<close>

record 'fs sys =
  os_TempDir :: string
  scanLines :: "'fs \<Rightarrow> string \<Rightarrow> string + (string list \<times> string option)"
    \<comment> \<open>\<open>os.Open\<close> of the manifest, then the lines that \<open>bufio.Scanner\<close> yields until
        \<open>Scan\<close> returns false, and what \<open>scanner.Err()\<close> holds then: nil at the end of the
        file, otherwise the error that stopped the scan\<close>
  ReadMelangeConfig :: "'fs \<Rightarrow> string \<Rightarrow> string + string list"
    \<comment> \<open>the names of \<open>c.Subpackages\<close>, in order\<close>
  GetApkPackages :: "string \<Rightarrow> string + (string \<rightharpoonup> Package)"
  os_Open :: "'fs \<Rightarrow> string \<Rightarrow> string + string"
    \<comment> \<open>the content of the file\<close>
  tar_Untar :: "string \<Rightarrow> string \<Rightarrow> 'fs \<Rightarrow> string option \<times> 'fs"
    \<comment> \<open>\<open>tar.Untar(content, dir)\<close>: the error if any, and the file system it leaves\<close>
  filepath_Walk :: "'fs \<Rightarrow> string \<Rightarrow> string list"
    \<comment> \<open>the paths on which \<open>filepath.Walk\<close> calls the walk function, in order\<close>
  http_Get :: "string \<Rightarrow> string + string"
    \<comment> \<open>the body of the response\<close>
  os_Create :: "string \<Rightarrow> 'fs \<Rightarrow> string + 'fs"
  io_Copy :: "string \<Rightarrow> string \<Rightarrow> 'fs \<Rightarrow> string option \<times> 'fs"
    \<comment> \<open>\<open>io.Copy\<close> of a body into the file created at a path\<close>

record 'fs world =
  fs :: 'fs
  trace :: "event list"

definition emit :: "event \<Rightarrow> 'fs world \<Rightarrow> 'fs world" where
  "emit e w = w\<lparr>trace := trace w @ [e]\<rparr>"

section \<open>Reading the manifest\<close>

fun scanManifest :: "string list \<Rightarrow> (string \<rightharpoonup> NewApkPackage) \<Rightarrow> string + (string \<rightharpoonup> NewApkPackage)" where
  \<comment> \<open>the loop \<open>for scanner.Scan()\<close> of \<open>getNewPackages\<close> over the lines still to come; the
      second argument is \<open>rs\<close>\<close>
  "scanManifest [] rs = Inr rs"
| "scanManifest (text # rest) rs =
     (if strings_TrimSpace text = [] then scanManifest rest rs
      else let parts = strings_Split text (CHR ''|'')
           in if length parts \<noteq> 3
              then Inl (''expected 3 parts but found '' @ itoa (length parts)
                          @ '' when scanning '' @ text)
              else let versionParts = strings_Split (parts ! 2) (CHR ''-'')
                   in if length versionParts \<noteq> 2
                      then Inl (''expected 2 version parts but found ''
                                  @ itoa (length versionParts))
                      else let arch = parts ! 0;
                               packageName = parts ! 1;
                               version = versionParts ! 0;
                               epoch = strings_TrimSuffix
                                         (strings_TrimPrefix (versionParts ! 1) ''r'') ''.apk''
                           in scanManifest rest
                                (rs(packageName \<mapsto>
                                      \<lparr>Arch = arch, Epoch = epoch, Version = version\<rparr>)))"

fun addSubpackagesLoop ::
  "'fs sys \<Rightarrow> SoNameOptions \<Rightarrow> (string \<rightharpoonup> NewApkPackage) \<Rightarrow> string list
     \<Rightarrow> (string \<rightharpoonup> NewApkPackage) \<Rightarrow> 'fs world
     \<Rightarrow> (string \<rightharpoonup> NewApkPackage) \<times> 'fs world" where
  \<comment> \<open>the loop \<open>for melangePackageName, apkPackage := range m\<close> over the keys still to
      visit; the fifth argument is \<open>packagesAndSubpackages\<close>\<close>
  "addSubpackagesLoop sys opts m [] acc w = (acc, w)"
| "addSubpackagesLoop sys opts m (melangePackageName # rest) acc w =
     (case m melangePackageName of
        None \<Rightarrow> addSubpackagesLoop sys opts m rest acc w
      | Some apkPackage \<Rightarrow>
          (let filename = Join [Dir opts, melangePackageName @ ''.yaml'']
           in case ReadMelangeConfig sys (fs w) filename of
                Inl err \<Rightarrow>
                  addSubpackagesLoop sys opts m rest acc
                    (emit (LogPrintf (''failed to read melange config '' @ filename)) w)
              | Inr subpackages \<Rightarrow>
                  addSubpackagesLoop sys opts m rest
                    (foldl (\<lambda>a name. a(name \<mapsto> apkPackage)) acc subpackages) w))"

definition addSubpackages ::
  "'fs sys \<Rightarrow> SoNameOptions \<Rightarrow> string list \<Rightarrow> (string \<rightharpoonup> NewApkPackage) \<Rightarrow> 'fs world
     \<Rightarrow> (string \<rightharpoonup> NewApkPackage) \<times> 'fs world" where
  \<comment> \<open>\<open>order\<close> is the order in which \<open>range m\<close> visits the keys of \<open>m\<close>, which Go leaves
      open; \<open>maps.Copy\<close> makes the result start as \<open>m\<close>\<close>
  "addSubpackages sys opts order m w = addSubpackagesLoop sys opts m order m w"

definition getNewPackages ::
  "'fs sys \<Rightarrow> SoNameOptions \<Rightarrow> string list \<Rightarrow> 'fs world
     \<Rightarrow> (string + (string \<rightharpoonup> NewApkPackage)) \<times> 'fs world" where
  \<comment> \<open>\<open>order\<close> is the order in which \<open>addSubpackages\<close> visits the keys of \<open>rs\<close>; on an
      error the Go function also returns the map read so far, which no caller uses;
      \<open>scanner.Err()\<close> is never read, so \<open>scanErr\<close> is not used\<close>
  "getNewPackages sys opts order w =
     (case scanLines sys (fs w) (PackageListFilename opts) of
        Inl err \<Rightarrow> (Inl (''opening file '' @ PackageListFilename opts @ '': '' @ err), w)
      | Inr (lines, scanErr) \<Rightarrow>
          (case scanManifest lines Map.empty of
             Inl err \<Rightarrow> (Inl err, w)
           | Inr rs \<Rightarrow>
               (case addSubpackages sys opts order rs w of
                  (rs', w') \<Rightarrow> (Inr rs', w'))))"

section \<open>Comparing a new package with the published one\<close>

definition getSonameFiles :: "'fs sys \<Rightarrow> string \<Rightarrow> 'fs world \<Rightarrow> (string list \<times> string option) \<times> 'fs world" where
  \<comment> \<open>the walk function returns \<open>nil\<close> on every path, whatever error it is handed, so
      \<open>filepath.Walk\<close> returns \<open>nil\<close> too\<close>
  "getSonameFiles sys dir w =
     ((sonameFileList (filepath_Walk sys (fs w) dir), None), emit (Walk dir) w)"

definition downloadCurrentAPK ::
  "'fs sys \<Rightarrow> SoNameOptions \<Rightarrow> string \<Rightarrow> string \<Rightarrow> 'fs world \<Rightarrow> string option \<times> 'fs world" where
  "downloadCurrentAPK sys opts newPackageName dirCurrentApk w =
     (let apkURL = strings_ReplaceAll (ApkIndexURL opts) ''APKINDEX'' newPackageName;
          w1 = emit (Get apkURL) w
      in case http_Get sys apkURL of
           Inl err \<Rightarrow> (Some (''failed to get '' @ apkURL @ '': '' @ err), w1)
         | Inr body \<Rightarrow>
             (let out = Join [dirCurrentApk, newPackageName];
                  w2 = emit (Create out) w1
              in case os_Create sys out (fs w2) of
                   Inl err \<Rightarrow> (Some err, w2)
                 | Inr fs2 \<Rightarrow>
                     (case io_Copy sys out body fs2 of
                        (copyErr, fs3) \<Rightarrow> (copyErr, emit (Copy out) (w2\<lparr>fs := fs3\<rparr>)))))"

definition wrapf :: "string \<Rightarrow> string \<Rightarrow> string" where
  \<comment> \<open>the text of \<open>errors.Wrapf(err, ...)\<close>: the formatted message, a colon, the cause\<close>
  "wrapf msg err = msg @ '': '' @ err"

definition diffExisting ::
  "'fs sys \<Rightarrow> SoNameOptions \<Rightarrow> string \<Rightarrow> Package \<Rightarrow> string list \<Rightarrow> string \<Rightarrow> 'fs world
     \<Rightarrow> (fault + string option) \<times> 'fs world" where
  \<comment> \<open>\<open>diff\<close> from the download of the published archive on; \<open>p\<close> is its index entry\<close>
  "diffExisting sys opts newPackageName p newSonameFiles dirExistingApk w =
     (let existingFilename = Name p @ ''-'' @ PkgVersion p @ ''.apk''
      in case downloadCurrentAPK sys opts existingFilename dirExistingApk w of
           (Some err, w1) \<Rightarrow>
             (Inr (Some (wrapf (''failed to download '' @ newPackageName @ '' using base URL ''
                                  @ ApkIndexURL opts) err)), w1)
         | (None, w1) \<Rightarrow>
             (case getSonameFiles sys dirExistingApk w1 of
                ((existingSonameFiles, Some err), w2) \<Rightarrow>
                  (Inr (Some (wrapf ''error when looking for soname files in existing apk'' err)), w2)
              | ((existingSonameFiles, None), w2) \<Rightarrow>
                  (case checkSonamesMatch existingSonameFiles newSonameFiles of
                     Inl f \<Rightarrow> (Inl f, w2)
                   | Inr None \<Rightarrow> (Inr None, w2)
                   | Inr (Some err) \<Rightarrow>
                       (Inr (Some (wrapf (''soname files differ, this can cause an ABI break.  Existing soname files ''
                                            @ strings_Join existingSonameFiles '',''
                                            @ '', New soname files ''
                                            @ strings_Join newSonameFiles '','') err)), w2))))"

definition diff ::
  "'fs sys \<Rightarrow> SoNameOptions \<Rightarrow> string \<Rightarrow> NewApkPackage \<Rightarrow> (string \<rightharpoonup> Package) \<Rightarrow> 'fs world
     \<Rightarrow> (fault + string option) \<times> 'fs world" where
  \<comment> \<open>the result is the error returned (\<open>None\<close> for \<open>nil\<close>) or the panic, and the world
      the call leaves\<close>
  "diff sys opts newPackageName newAPK existingPackages w =
     (let dirExistingApk = os_TempDir sys;
          dirNewApk = os_TempDir sys;
          filename = Join [PackagesDir opts, Arch newAPK,
                           newPackageName @ ''-'' @ Version newAPK @ ''-r'' @ Epoch newAPK @ ''.apk''];
          w1 = emit (Open filename) w
      in case os_Open sys (fs w1) filename of
           Inl err \<Rightarrow> (Inr (Some (wrapf (''failed to read '' @ filename) err)), w1)
         | Inr newFile \<Rightarrow>
             (case tar_Untar sys newFile dirNewApk (fs w1) of
                (untarErr, fs2) \<Rightarrow>
                  (let w2 = emit (Untar filename dirNewApk) (w1\<lparr>fs := fs2\<rparr>)
                   in case untarErr of
                        Some err \<Rightarrow> (Inr (Some (wrapf ''failed to untar new apk'' err)), w2)
                      | None \<Rightarrow>
                          (case getSonameFiles sys dirNewApk w2 of
                             ((newSonameFiles, Some err), w3) \<Rightarrow>
                               (Inr (Some (wrapf ''error when looking for soname files in new apk'' err)), w3)
                           | ((newSonameFiles, None), w3) \<Rightarrow>
                               (if length newSonameFiles = 0 then (Inr None, w3)
                                else (case existingPackages newPackageName of
                                        None \<Rightarrow>
                                          (Inr None,
                                           emit (LoggerPrintf (''no existing package found for ''
                                                   @ newPackageName @ '', skipping so name check'')) w3)
                                      | Some p \<Rightarrow>
                                          diffExisting sys opts newPackageName p newSonameFiles
                                            dirExistingApk w3))))))"

section \<open>The whole check\<close>

definition WrapErrors :: "string list \<Rightarrow> string option" where
  \<comment> \<open>Modelled from the spec: \<open>lint.EvalRuleErrors.WrapErrors\<close> is not among the sources.
      It returns nil for an empty sequence and otherwise a single error whose text
      enumerates every contained error on its own line, the text of each kept as it is.\<close>
  "WrapErrors errs = (if errs = [] then None else Some (strings_Join errs [newline]))"

fun checkLoop ::
  "'fs sys \<Rightarrow> SoNameOptions \<Rightarrow> (string \<rightharpoonup> NewApkPackage) \<Rightarrow> (string \<rightharpoonup> Package)
     \<Rightarrow> string list \<Rightarrow> string list \<Rightarrow> 'fs world \<Rightarrow> (fault + string list) \<times> 'fs world" where
  \<comment> \<open>the loop \<open>for packageName, newAPK := range newPackages\<close> over the keys still to
      visit; the sixth argument is \<open>soNameErrors\<close>, as the texts of its errors\<close>
  "checkLoop sys opts newPackages existingPackages [] soNameErrors w = (Inr soNameErrors, w)"
| "checkLoop sys opts newPackages existingPackages (packageName # rest) soNameErrors w =
     (case newPackages packageName of
        None \<Rightarrow> checkLoop sys opts newPackages existingPackages rest soNameErrors w
      | Some newAPK \<Rightarrow>
          (case diff sys opts packageName newAPK existingPackages
                  (emit (LoggerPrintf (''checking '' @ packageName)) w) of
             (Inl f, w') \<Rightarrow> (Inl f, w')
           | (Inr None, w') \<Rightarrow>
               checkLoop sys opts newPackages existingPackages rest soNameErrors w'
           | (Inr (Some err), w') \<Rightarrow>
               checkLoop sys opts newPackages existingPackages rest
                 (soNameErrors @ [Sprintf0 err]) w'))"

definition CheckSoName ::
  "'fs sys \<Rightarrow> SoNameOptions \<Rightarrow> string list \<Rightarrow> string list \<Rightarrow> 'fs world
     \<Rightarrow> (fault + string option) \<times> 'fs world" where
  \<comment> \<open>\<open>order1\<close> and \<open>order2\<close> are the orders in which the two \<open>range\<close> loops, the one of
      \<open>addSubpackages\<close> and the one below, visit the keys of their maps\<close>
  "CheckSoName sys opts order1 order2 w =
     (case GetApkPackages sys (ApkIndexURL opts) of
        Inl err \<Rightarrow>
          (Inr (Some (wrapf (''failed to get APK packages from URL '' @ ApkIndexURL opts) err)), w)
      | Inr existingPackages \<Rightarrow>
          (case getNewPackages sys opts order1 w of
             (Inl err, w1) \<Rightarrow> (Inr (Some (wrapf ''failed to get new packages'' err)), w1)
           | (Inr newPackages, w1) \<Rightarrow>
               (case checkLoop sys opts newPackages existingPackages order2 [] w1 of
                  (Inl f, w2) \<Rightarrow> (Inl f, w2)
                | (Inr soNameErrors, w2) \<Rightarrow> (Inr (WrapErrors soNameErrors), w2))))"

section \<open>Notions used to state the properties\<close>

definition inCodePattern :: "string \<Rightarrow> bool" where
  \<comment> \<open>the texts that the pattern of the code, \<open>.so.*\d\<close> with its dot unescaped, matches
      as a whole: any character other than the newline, then \<open>so\<close>, then characters other
      than the newline of which the last is a digit\<close>
  "inCodePattern m =
     (case m of
        c # c1 # c2 # rest \<Rightarrow>
          c \<noteq> newline \<and> c1 = CHR ''s'' \<and> c2 = CHR ''o'' \<and> rest \<noteq> []
            \<and> newline \<notin> set rest \<and> isDigit (last rest)
      | _ \<Rightarrow> False)"

fun literalSoThenDigit :: "string \<Rightarrow> bool" where
  \<comment> \<open>the pattern in the words of the specification: the name contains the literal
      substring \<open>.so\<close> followed, anywhere later, by at least one digit\<close>
  "literalSoThenDigit [] = False"
| "literalSoThenDigit (c # cs) =
     ((take 3 (c # cs) = ''.so'' \<and> list_ex isDigit (drop 3 (c # cs))) \<or> literalSoThenDigit cs)"

definition codeName :: "string \<Rightarrow> string" where
  \<comment> \<open>what \<open>checkSonamesMatch\<close> computes as \<open>name\<close>: \<open>reg.Split(filename, -1)[0]\<close>\<close>
  "codeName f = (case findMatch f of None \<Rightarrow> f | Some (b, m, a) \<Rightarrow> b)"

definition codeVersion :: "string \<Rightarrow> string" where
  \<comment> \<open>what \<open>checkSonamesMatch\<close> computes as \<open>version\<close> for a filename that matches:
      \<open>reg.FindAllString(filename, -1)[0]\<close>\<close>
  "codeVersion f = (case findMatch f of None \<Rightarrow> [] | Some (b, m, a) \<Rightarrow> m)"

definition codeMapEntry :: "string list \<Rightarrow> string \<Rightarrow> string option" where
  \<comment> \<open>the entry of \<open>existingSonameMap\<close> under a name once the first loop is over: the
      version computed for the last file of the list for which that name is computed\<close>
  "codeMapEntry existing b =
     (case filter (\<lambda>e. codeName e = b) existing of
        [] \<Rightarrow> None
      | e # es \<Rightarrow> Some (codeVersion (last (e # es))))"

definition codeOutcome :: "string list \<Rightarrow> string \<Rightarrow> string option" where
  \<comment> \<open>what one turn of the second loop of \<open>checkSonamesMatch\<close> comes to: an error, or on
      to the next file\<close>
  "codeOutcome existing n =
     (case codeMapEntry existing (codeName n) of
        None \<Rightarrow> None
      | Some v \<Rightarrow>
          if v = codeVersion n then None
          else Some (sonameError (codeName n) v (codeVersion n)))"

fun firstError :: "string option list \<Rightarrow> string option" where
  \<comment> \<open>the first error of a list of outcomes\<close>
  "firstError [] = None"
| "firstError (None # rest) = firstError rest"
| "firstError (Some e # rest) = Some e"

fun literalSplit :: "string \<Rightarrow> (string \<times> string) option" where
  \<comment> \<open>the split of a filename in the words of the specification, with the dot of \<open>.so\<close>
      taken literally: the first place where \<open>.so\<close> stands with a digit somewhere after
      it; the base-name is the text before that place, the version-suffix runs from the
      \<open>.so\<close> to the last digit of the name\<close>
  "literalSplit [] = None"
| "literalSplit (c # cs) =
     (if take 3 (c # cs) = ''.so'' \<and> list_ex isDigit (drop 3 (c # cs))
      then Some ([], ''.so'' @ rev (dropWhile (\<lambda>d. \<not> isDigit d) (rev (drop 3 (c # cs)))))
      else (case literalSplit cs of None \<Rightarrow> None | Some (b, v) \<Rightarrow> Some (c # b, v)))"

definition literalBase :: "string \<Rightarrow> string" where
  \<comment> \<open>the base-name of the specification\<close>
  "literalBase f = (case literalSplit f of None \<Rightarrow> f | Some (b, v) \<Rightarrow> b)"

definition literalSuffix :: "string \<Rightarrow> string" where
  \<comment> \<open>the version-suffix of the specification\<close>
  "literalSuffix f = (case literalSplit f of None \<Rightarrow> [] | Some (b, v) \<Rightarrow> v)"

fun containsSo :: "string \<Rightarrow> bool" where
  \<comment> \<open>the letters \<open>so\<close> stand somewhere in the text\<close>
  "containsSo [] = False"
| "containsSo (c # cs) = (take 2 (c # cs) = ''so'' \<or> containsSo cs)"

definition plainSoname :: "string \<Rightarrow> bool" where
  \<comment> \<open>a soname of one line whose base-name does not hold the letters \<open>so\<close> after its
      first character, like \<open>libfoo.so.1\<close> and unlike \<open>libresolv.so.2\<close>\<close>
  "plainSoname f =
     (newline \<notin> set f
      \<and> (case literalSplit f of None \<Rightarrow> False | Some (b, v) \<Rightarrow> \<not> containsSo (tl b)))"




definition pipeMalformed :: "string \<Rightarrow> bool" where
  \<comment> \<open>a line that is not blank and does not split into exactly 3 fields at the pipes\<close>
  "pipeMalformed line =
     (strings_TrimSpace line \<noteq> [] \<and> length (strings_Split line (CHR ''|'')) \<noteq> 3)"

definition versionMalformed :: "string \<Rightarrow> bool" where
  \<comment> \<open>a line of 3 fields whose third field does not split into exactly 2 parts at the
      hyphens\<close>
  "versionMalformed line =
     (strings_TrimSpace line \<noteq> [] \<and> length (strings_Split line (CHR ''|'')) = 3
      \<and> length (strings_Split (strings_Split line (CHR ''|'') ! 2) (CHR ''-'')) \<noteq> 2)"

definition malformedLine :: "string \<Rightarrow> bool" where
  "malformedLine line = (pipeMalformed line \<or> versionMalformed line)"

definition lineName :: "string \<Rightarrow> string option" where
  \<comment> \<open>the \<open>NAME\<close> of a line of three fields\<close>
  "lineName line =
     (case strings_Split line (CHR ''|'') of [a, n, v] \<Rightarrow> Some n | _ \<Rightarrow> None)"

definition recipeOf :: "'fs sys \<Rightarrow> SoNameOptions \<Rightarrow> 'fs \<Rightarrow> string \<Rightarrow> string + string list" where
  \<comment> \<open>what reading the recipe of a package gives: \<open>{Dir}/{name}.yaml\<close>\<close>
  "recipeOf sys opts files name = ReadMelangeConfig sys files (Join [Dir opts, name @ ''.yaml''])"

definition declares :: "'fs sys \<Rightarrow> SoNameOptions \<Rightarrow> 'fs \<Rightarrow> string \<Rightarrow> string \<Rightarrow> bool" where
  \<comment> \<open>the recipe of the package can be read and declares a subpackage of that name\<close>
  "declares sys opts files name sub =
     (case recipeOf sys opts files name of Inl err \<Rightarrow> False | Inr subpackages \<Rightarrow> sub \<in> set subpackages)"

definition newApkFilename :: "SoNameOptions \<Rightarrow> string \<Rightarrow> NewApkPackage \<Rightarrow> string" where
  \<comment> \<open>where \<open>diff\<close> looks for the new archive\<close>
  "newApkFilename opts name apk =
     Join [PackagesDir opts, Arch apk, name @ ''-'' @ Version apk @ ''-r'' @ Epoch apk @ ''.apk'']"

definition existingFilename :: "Package \<Rightarrow> string" where
  \<comment> \<open>the name of the published archive: \<open>{name}-{version}.apk\<close>\<close>
  "existingFilename p = Name p @ ''-'' @ PkgVersion p @ ''.apk''"

definition skipMessage :: "string \<Rightarrow> string" where
  \<comment> \<open>the line \<open>diff\<close> logs for a package that the index does not have\<close>
  "skipMessage name = ''no existing package found for '' @ name @ '', skipping so name check''"

definition cleanAbsolute :: "string \<Rightarrow> bool" where
  \<comment> \<open>an absolute path written without a trailing separator and without an empty, \<open>.\<close>
      or \<open>..\<close> element, like \<open>/tmp\<close> and \<open>/var/tmp\<close>\<close>
  "cleanAbsolute dir =
     (case dir of
        [] \<Rightarrow> False
      | c # cs \<Rightarrow>
          c = CHR ''/''
            \<and> list_all (\<lambda>e. e \<noteq> [] \<and> e \<noteq> ''.'' \<and> e \<noteq> ''..'') (strings_Split cs (CHR ''/'')))"

fun findings ::
  "'fs sys \<Rightarrow> SoNameOptions \<Rightarrow> (string \<rightharpoonup> NewApkPackage) \<Rightarrow> (string \<rightharpoonup> Package)
     \<Rightarrow> string list \<Rightarrow> 'fs world \<Rightarrow> string list" where
  \<comment> \<open>the errors of the failing packages, each as \<open>diff\<close> returns it, in the order in
      which the packages are processed\<close>
  "findings sys opts newPackages existingPackages [] w = []"
| "findings sys opts newPackages existingPackages (packageName # rest) w =
     (case newPackages packageName of
        None \<Rightarrow> findings sys opts newPackages existingPackages rest w
      | Some newAPK \<Rightarrow>
          (case diff sys opts packageName newAPK existingPackages
                  (emit (LoggerPrintf (''checking '' @ packageName)) w) of
             (Inr (Some err), w') \<Rightarrow> err # findings sys opts newPackages existingPackages rest w'
           | (r, w') \<Rightarrow> findings sys opts newPackages existingPackages rest w'))"

text \<open>
  A small world for the examples. The temporary directory is \<open>/tmp\<close>; the file system is
  the list of the paths under it; the content of an archive is the comma-separated list
  of the paths it holds, and unpacking adds them below the directory; a walk visits the
  directory and then every path; creating a file adds its path.
\<close>

definition exampleSys ::
  "string list \<Rightarrow> (string \<rightharpoonup> string list) \<Rightarrow> (string \<rightharpoonup> Package) \<Rightarrow> (string \<rightharpoonup> string)
     \<Rightarrow> (string \<rightharpoonup> string) \<Rightarrow> string list sys" where
  "exampleSys manifest recipes index localFiles remoteFiles =
     \<lparr>os_TempDir = ''/tmp'',
      scanLines = (\<lambda>files name. Inr (manifest, None)),
      ReadMelangeConfig =
        (\<lambda>files filename. case recipes filename of
                             None \<Rightarrow> Inl ''no such file or directory''
                           | Some subpackages \<Rightarrow> Inr subpackages),
      GetApkPackages = (\<lambda>url. Inr index),
      os_Open =
        (\<lambda>files filename. case localFiles filename of
                             None \<Rightarrow> Inl ''no such file or directory''
                           | Some content \<Rightarrow> Inr content),
      tar_Untar =
        (\<lambda>content dir files.
           (None, files @ map (\<lambda>path. Join [dir, path]) (strings_Split content (CHR '','')))),
      filepath_Walk = (\<lambda>files dir. dir # files),
      http_Get =
        (\<lambda>url. case remoteFiles url of
                  None \<Rightarrow> Inl ''no such host''
                | Some body \<Rightarrow> Inr body),
      os_Create = (\<lambda>path files. Inr (files @ [path])),
      io_Copy = (\<lambda>path body files. (None, files))\<rparr>"

definition exampleOptions :: SoNameOptions where
  "exampleOptions =
     \<lparr>PackageListFilename = ''packages.log'', Dir = ''.'', PackagesDir = ''packages'',
      ApkIndexURL = ''https://packages.wolfi.dev/os/x86_64/APKINDEX.tar.gz''\<rparr>"

definition emptyWorld :: "string list world" where
  "emptyWorld = \<lparr>fs = [], trace = []\<rparr>"

definition exampleRecipes :: "string \<rightharpoonup> string list" where
  "exampleRecipes = [''P.yaml'' \<mapsto> [''Q'', ''R'']]"

definition pkgA :: NewApkPackage where
  "pkgA = \<lparr>Arch = ''x86_64'', Epoch = ''0'', Version = ''1.0''\<rparr>"

definition pkgB :: NewApkPackage where
  "pkgB = \<lparr>Arch = ''x86_64'', Epoch = ''3'', Version = ''2.0''\<rparr>"

definition helloNew :: NewApkPackage where
  "helloNew = \<lparr>Arch = ''x86_64'', Epoch = ''0'', Version = ''0.0.2''\<rparr>"

definition helloLocal :: "string \<rightharpoonup> string" where
  "helloLocal = [''packages/x86_64/hello-world-0.0.2-r0.apk'' \<mapsto> ''usr/lib/libfoo.so.2'']"

definition helloIndex :: "string \<rightharpoonup> Package" where
  "helloIndex = [''hello-world'' \<mapsto> \<lparr>Name = ''hello-world'', PkgVersion = ''0.0.1''\<rparr>]"

definition helloRemote :: "string \<rightharpoonup> string" where
  "helloRemote =
     [''https://packages.wolfi.dev/os/x86_64/hello-world-0.0.1.apk.tar.gz'' \<mapsto> ''usr/lib/libfoo.so.1'']"

definition percentOptions :: SoNameOptions where
  "percentOptions = exampleOptions\<lparr>ApkIndexURL := ''https://apk.example/os%2Fx86_64/APKINDEX''\<rparr>"

definition threeLines :: "string list" where
  "threeLines = [''x86_64|a|1.0-r0'', ''x86_64|b|1.0-r0'', ''x86_64|c|1.0-r0'']"

definition threeLocal :: "string \<rightharpoonup> string" where
  "threeLocal = [''packages/x86_64/b-1.0-r0.apk'' \<mapsto> ''usr/bin/b'']"

section \<open>The matcher finds the leftmost match and the longest one there\<close>

lemma starDigit_sound:
  assumes "starDigit s = Some t"
  shows "t \<noteq> [] \<and> isDigit (last t) \<and> newline \<notin> set t \<and> s = t @ drop (length t) s"
proof -
  let ?line = "takeWhile (\<lambda>c. c \<noteq> newline) s"
  let ?r = "dropWhile (\<lambda>c. \<not> isDigit c) (rev ?line)"
  from assms have r: "?r \<noteq> []" and t: "t = rev ?r"
    by (auto simp: starDigit_def Let_def split: if_splits)
  have "isDigit (hd ?r)" using r hd_dropWhile [of "\<lambda>c. \<not> isDigit c" "rev ?line"] by auto
  then have d: "isDigit (last t)" using r t by (simp add: last_rev)
  have "set ?r \<subseteq> set (rev ?line)" by (rule set_dropWhileD [THEN subsetI])
  then have "set t \<subseteq> set ?line" using t by simp
  moreover have "newline \<notin> set ?line" by (auto dest: set_takeWhileD)
  ultimately have n: "newline \<notin> set t" by auto
  have "rev ?line = takeWhile (\<lambda>c. \<not> isDigit c) (rev ?line) @ ?r" by simp
  then have "?line = t @ rev (takeWhile (\<lambda>c. \<not> isDigit c) (rev ?line))"
    using t by (metis rev_append rev_rev_ident)
  moreover have "s = ?line @ dropWhile (\<lambda>c. c \<noteq> newline) s" by simp
  ultimately have "\<exists>u. s = t @ u" by (metis append.assoc)
  then have "s = t @ drop (length t) s" by auto
  with r t d n show ?thesis by simp
qed

lemma length_dropWhile_append: "length (dropWhile P ys) \<le> length (dropWhile P (xs @ ys))"
proof (induction xs)
  case Nil
  then show ?case by simp
next
  case (Cons x xs)
  have "length (dropWhile P ys) \<le> length (xs @ ys)"
    using length_dropWhile_le [of P ys] by simp
  with Cons show ?case by simp
qed

lemma starDigit_greedy:
  assumes "t' \<noteq> []" "isDigit (last t')" "newline \<notin> set t'"
  shows "\<exists>t. starDigit (t' @ u) = Some t \<and> length t' \<le> length t"
proof -
  let ?line = "takeWhile (\<lambda>c. c \<noteq> newline) (t' @ u)"
  let ?l2 = "takeWhile (\<lambda>c. c \<noteq> newline) u"
  let ?r = "dropWhile (\<lambda>c. \<not> isDigit c) (rev ?line)"
  have line: "?line = t' @ ?l2" using assms(3) by (intro takeWhile_append2) auto
  have "dropWhile (\<lambda>c. \<not> isDigit c) (rev t') = rev t'"
    using assms(1,2) by (cases "rev t'") (auto simp: last_rev [symmetric] hd_rev)
  then have "length t' \<le> length ?r"
    using length_dropWhile_append [of "\<lambda>c. \<not> isDigit c" "rev t'" "rev ?l2"] line by simp
  moreover from this assms(1) have "?r \<noteq> []"
    by (cases t') (auto simp del: dropWhile_eq_Nil_conv)
  ultimately show ?thesis by (simp add: starDigit_def Let_def)
qed

lemma matchHere_sound:
  assumes "matchHere s = Some m"
  shows "inCodePattern m \<and> s = m @ drop (length m) s"
proof -
  from assms obtain c c1 c2 rest where s: "s = c # c1 # c2 # rest"
    by (cases s rule: matchHere.cases) auto
  with assms obtain t where t: "starDigit rest = Some t" and m: "m = c # c1 # c2 # t"
    and c: "c \<noteq> newline" "c1 = CHR ''s''" "c2 = CHR ''o''"
    by (auto split: if_splits option.splits)
  from starDigit_sound [OF t] show ?thesis using s m c by (simp add: inCodePattern_def)
qed

lemma matchHere_greedy:
  assumes "inCodePattern m'"
  shows "\<exists>m. matchHere (m' @ a') = Some m \<and> length m' \<le> length m"
proof -
  from assms obtain c rest where m': "m' = c # CHR ''s'' # CHR ''o'' # rest"
    and c: "c \<noteq> newline" and rest: "rest \<noteq> []" "newline \<notin> set rest" "isDigit (last rest)"
    by (auto simp: inCodePattern_def split: list.splits)
  from starDigit_greedy [OF rest(1) rest(3) rest(2), of a']
  obtain t where "starDigit (rest @ a') = Some t" "length rest \<le> length t" by blast
  then show ?thesis using m' c by simp
qed

lemma findMatch_sound:
  "findMatch f = Some (b, m, a) \<Longrightarrow> f = b @ m @ a \<and> inCodePattern m"
proof (induction f arbitrary: b)
  case Nil
  then show ?case by simp
next
  case (Cons c cs)
  show ?case
  proof (cases "matchHere (c # cs)")
    case (Some m0)
    with Cons.prems have "b = []" "m = m0" "a = drop (length m0) (c # cs)" by auto
    with matchHere_sound [OF Some] show ?thesis by simp
  next
    case None
    with Cons.prems obtain b' where b': "findMatch cs = Some (b', m, a)" "b = c # b'"
      by (auto split: option.splits)
    from Cons.IH [OF b'(1)] b'(2) show ?thesis by simp
  qed
qed

lemma findMatch_leftmost:
  "findMatch f = Some (b, m, a) \<Longrightarrow> f = b' @ m' @ a' \<Longrightarrow> inCodePattern m'
     \<Longrightarrow> length b \<le> length b' \<and> (length b' = length b \<longrightarrow> length m' \<le> length m)"
proof (induction f arbitrary: b b')
  case Nil
  then show ?case by simp
next
  case (Cons c cs)
  show ?case
  proof (cases "matchHere (c # cs)")
    case (Some m0)
    with Cons.prems(1) have b: "b = []" and m: "m = m0" by auto
    show ?thesis
    proof (cases b')
      case Nil
      with Cons.prems(2) have "c # cs = m' @ a'" by simp
      with matchHere_greedy [OF Cons.prems(3), of a'] Some m b Nil show ?thesis by auto
    next
      case (Cons x xs)
      with b show ?thesis by simp
    qed
  next
    case None
    with Cons.prems(1) obtain b0 where b0: "findMatch cs = Some (b0, m, a)" "b = c # b0"
      by (auto split: option.splits)
    show ?thesis
    proof (cases b')
      case Nil
      with Cons.prems(2) have "c # cs = m' @ a'" by simp
      with matchHere_greedy [OF Cons.prems(3), of a'] None show ?thesis by auto
    next
      case (Cons x xs)
      with Cons.prems(2) have "cs = xs @ m' @ a'" by simp
      from Cons.IH [OF b0(1) this Cons.prems(3)] b0(2) Cons show ?thesis by simp
    qed
  qed
qed

lemma findMatch_complete:
  "inCodePattern m' \<Longrightarrow> findMatch (b' @ m' @ a') \<noteq> None"
proof (induction b')
  case Nil
  from matchHere_greedy [OF Nil, of a'] obtain m where m: "matchHere (m' @ a') = Some m" by blast
  from Nil obtain c r where "m' = c # r" by (auto simp: inCodePattern_def split: list.splits)
  with m show ?case by simp
next
  case (Cons x xs)
  then show ?case by (auto split: option.splits)
qed

lemma splitSoname_findMatch:
  "splitSoname f =
     (case findMatch f of None \<Rightarrow> Inl IndexOutOfRange | Some (b, m, a) \<Rightarrow> Inr (b, m))"
  by (simp add: splitSoname_def index0_def reg_Split.simps [of f] reg_FindAllString.simps [of f]
      split: option.splits)

section \<open>Which names are soname files\<close>

lemma isSonameFile_examples:
  "isSonameFile ''libfoo.so.1''" "isSonameFile ''libfoo.so.1.2.3''" "\<not> isSonameFile ''libfoo.so''"
  "literalSoThenDigit ''libfoo.so.1''" "\<not> literalSoThenDigit ''libfoo.so''"
  by code_simp+

text \<open>
  C4: a name is meant to be a soname file when it contains the literal substring \<open>.so\<close>
  followed later by a digit. The dot of the pattern \<open>.so.*\d\<close> is not escaped, so it stands
  for any character: \<open>json2.js\<close> has no \<open>.so\<close> in it, and the walk function of
  \<open>getSonameFiles\<close> keeps it all the same, for \<open>json2\<close> matches.
\<close>

theorem getSonameFiles_unescaped_dot:
  "isSonameFile ''json2.js'' \<and> \<not> literalSoThenDigit ''json2.js''"
  by code_simp

section \<open>Splitting a soname\<close>

lemma splitSoname_examples:
  "splitSoname ''libfoo.so.1.2.3'' = Inr (''libfoo'', ''.so.1.2.3'')"
  "splitSoname ''/tmp/usr/lib/libfoo.so.1'' = Inr (''/tmp/usr/lib/libfoo'', ''.so.1'')"
  "splitSoname ''libfoo.so'' = Inl IndexOutOfRange"
  by code_simp+

text \<open>
  What the code does on a filename in which its pattern matches somewhere: the name it
  computes is the text before the leftmost match, and the version is that match, the
  longest that starts there.
\<close>

lemma splitSoname_leftmost_longest:
  assumes "filename = b' @ m' @ a'" and "inCodePattern m'"
  shows "\<exists>name version rest.
           splitSoname filename = Inr (name, version)
         \<and> filename = name @ version @ rest
         \<and> inCodePattern version
         \<and> length name \<le> length b'
         \<and> (length name = length b' \<longrightarrow> length m' \<le> length version)"
proof -
  from findMatch_complete [OF assms(2), of b' a'] assms(1)
  obtain b m a where fm: "findMatch filename = Some (b, m, a)" by auto
  from findMatch_sound [OF fm] have "filename = b @ m @ a" "inCodePattern m" by simp_all
  moreover from findMatch_leftmost [OF fm assms]
  have "length b \<le> length b'" "length b = length b' \<longrightarrow> length m' \<le> length m" by auto
  moreover have "splitSoname filename = Inr (b, m)" using fm by (simp add: splitSoname_findMatch)
  ultimately show ?thesis by blast
qed

text \<open>
  The split in the words of the specification takes the dot literally; a name has such a
  split exactly when it holds \<open>.so\<close> with a digit after it. That split and the split of
  the code agree on the names whose base-name does not hold the letters \<open>so\<close> after its
  first character.
\<close>

lemma literalSplit_literalSoThenDigit: "(literalSplit f \<noteq> None) = literalSoThenDigit f"
  by (induction f) (auto split: option.splits)

lemma literalSplit_shape:
  "literalSplit f = Some (b, v) \<Longrightarrow>
     \<exists>t rest. f = b @ ''.so'' @ t @ rest \<and> v = ''.so'' @ t \<and> t \<noteq> [] \<and> isDigit (last t)
               \<and> (\<forall>d \<in> set rest. \<not> isDigit d)"
proof (induction f arbitrary: b)
  case Nil
  then show ?case by simp
next
  case (Cons c cs)
  let ?x = "drop 3 (c # cs)"
  show ?case
  proof (cases "take 3 (c # cs) = ''.so'' \<and> list_ex isDigit ?x")
    case True
    let ?r = "dropWhile (\<lambda>d. \<not> isDigit d) (rev ?x)"
    let ?t = "rev ?r"
    let ?rest = "rev (takeWhile (\<lambda>d. \<not> isDigit d) (rev ?x))"
    from True Cons.prems have b: "b = []" and v: "v = ''.so'' @ ?t" by simp_all
    from True have "\<exists>d \<in> set (rev ?x). isDigit d" by (simp add: list_ex_iff)
    then have r: "?r \<noteq> []" by (simp del: dropWhile_eq_Nil_conv add: dropWhile_eq_Nil_conv)
    then have "isDigit (hd ?r)" using hd_dropWhile [of "\<lambda>d. \<not> isDigit d" "rev ?x"] by simp
    then have d: "isDigit (last ?t)" using r by (simp add: last_rev)
    have "rev ?x = takeWhile (\<lambda>d. \<not> isDigit d) (rev ?x) @ ?r" by simp
    then have x: "?x = ?t @ ?rest" by (metis rev_append rev_rev_ident)
    have "c # cs = take 3 (c # cs) @ ?x" by simp
    with True x have f: "c # cs = ''.so'' @ ?t @ ?rest" by simp
    have nd: "\<forall>d \<in> set ?rest. \<not> isDigit d" by (auto dest: set_takeWhileD)
    from f v r d nd b show ?thesis by (intro exI [of _ ?t] exI [of _ ?rest]) simp
  next
    case False
    with Cons.prems obtain b' where b': "literalSplit cs = Some (b', v)" "b = c # b'"
      by (auto split: option.splits)
    from Cons.IH [OF b'(1)] b'(2) show ?thesis by auto
  qed
qed

lemma starDigit_exact:
  assumes "t \<noteq> []" "isDigit (last t)" "newline \<notin> set (t @ rest)" "\<forall>d \<in> set rest. \<not> isDigit d"
  shows "starDigit (t @ rest) = Some t"
proof -
  let ?line = "takeWhile (\<lambda>c. c \<noteq> newline) (t @ rest)"
  let ?r = "dropWhile (\<lambda>c. \<not> isDigit c) (rev ?line)"
  have tw: "?line = t @ rest"
    using assms(3) by (intro takeWhile_eq_all_conv [THEN iffD2]) auto
  have "dropWhile (\<lambda>c. \<not> isDigit c) (rev rest @ rev t) = dropWhile (\<lambda>c. \<not> isDigit c) (rev t)"
    using assms(4) by (intro dropWhile_append2) auto
  moreover have "dropWhile (\<lambda>c. \<not> isDigit c) (rev t) = rev t"
    using assms(1,2) by (cases "rev t") (auto simp: last_rev [symmetric] hd_rev)
  ultimately have r: "?r = rev t" by (simp only: tw rev_append)
  with assms(1) have "?r \<noteq> []" by simp
  with r show ?thesis unfolding starDigit_def Let_def by (simp only: if_False rev_rev_ident)
qed

lemma containsSo_tl: "\<not> containsSo b \<Longrightarrow> \<not> containsSo (tl b)"
  by (cases b) auto

lemma findMatch_literal:
  assumes "t \<noteq> []" "isDigit (last t)" "\<forall>d \<in> set rest. \<not> isDigit d"
  shows "\<not> containsSo (tl b) \<Longrightarrow> newline \<notin> set (b @ ''.so'' @ t @ rest)
           \<Longrightarrow> findMatch (b @ ''.so'' @ t @ rest) = Some (b, ''.so'' @ t, rest)"
proof (induction b)
  case Nil
  then have "newline \<notin> set (t @ rest)" by simp
  from starDigit_exact [OF assms(1,2) this assms(3)] Nil show ?case
    by (simp add: newline_def)
next
  case (Cons c b')
  from Cons.prems(1) have nb: "\<not> containsSo b'" by simp
  have "matchHere (c # b' @ ''.so'' @ t @ rest) = None"
  proof (cases b')
    case Nil
    then show ?thesis by simp
  next
    case (Cons x xs)
    show ?thesis
    proof (cases xs)
      case Nil
      with Cons show ?thesis by simp
    next
      case (Cons y ys)
      with \<open>b' = x # xs\<close> nb have "\<not> (x = CHR ''s'' \<and> y = CHR ''o'')" by auto
      with Cons \<open>b' = x # xs\<close> show ?thesis by auto
    qed
  qed
  moreover from Cons.prems(2) have "newline \<notin> set (b' @ ''.so'' @ t @ rest)" by simp
  from Cons.IH [OF containsSo_tl [OF nb] this]
  have "findMatch (b' @ ''.so'' @ t @ rest) = Some (b', ''.so'' @ t, rest)" .
  ultimately show ?case by simp
qed

lemma plainSoname_findMatch:
  assumes "plainSoname f"
  shows "\<exists>rest. findMatch f = Some (literalBase f, literalSuffix f, rest)"
proof -
  from assms obtain b v where lv: "literalSplit f = Some (b, v)" and nb: "\<not> containsSo (tl b)"
    and nl: "newline \<notin> set f"
    by (auto simp: plainSoname_def split: option.splits)
  from literalSplit_shape [OF lv] obtain t rest where
    f: "f = b @ ''.so'' @ t @ rest" and v: "v = ''.so'' @ t" and t: "t \<noteq> []" "isDigit (last t)"
    and r: "\<forall>d \<in> set rest. \<not> isDigit d" by blast
  from nl f have "newline \<notin> set (b @ ''.so'' @ t @ rest)" by simp
  from findMatch_literal [OF t r nb this] f v lv show ?thesis
    by (simp add: literalBase_def literalSuffix_def)
qed


lemma plainSoname_splitSoname:
  "plainSoname f \<Longrightarrow> splitSoname f = Inr (literalBase f, literalSuffix f)"
  using plainSoname_findMatch [of f] by (auto simp: splitSoname_findMatch)

text \<open>
  C5: the base-name is meant to be the text before the first match of the pattern and the
  version-suffix the match itself, the tail of the name from \<open>.so\<close> on. The dot of the
  pattern in \<open>checkSonamesMatch\<close> is not escaped, so a match starts at any character that
  the letters \<open>so\<close> follow: in \<open>libresolv.so.2\<close> the first match starts at the \<open>e\<close> of
  \<open>resolv\<close>, and the code takes \<open>libr\<close> for the name and \<open>esolv.so.2\<close> for the version,
  where the split at the literal \<open>.so\<close> gives \<open>libresolv\<close> and \<open>.so.2\<close>. This is the
  unescaped dot that also makes \<open>getSonameFiles\<close> keep \<open>json2.js\<close>.
\<close>

theorem splitSoname_unescaped_dot:
  "splitSoname ''libresolv.so.2'' = Inr (''libr'', ''esolv.so.2'')
   \<and> literalSplit ''libresolv.so.2'' = Some (''libresolv'', ''.so.2'')"
  by code_simp

section \<open>Comparing soname lists: what is reported\<close>

lemma findMatch_parts:
  assumes "findMatch f \<noteq> None"
  shows "splitSoname f = Inr (codeName f, codeVersion f) \<and> codeVersion f \<noteq> []"
proof -
  from assms obtain b m a where fm: "findMatch f = Some (b, m, a)" by auto
  from findMatch_sound [OF fm] have "inCodePattern m" by simp
  then have "m \<noteq> []" by (auto simp: inCodePattern_def)
  with fm show ?thesis by (simp add: splitSoname_findMatch codeName_def codeVersion_def)
qed

lemma codeMapEntry_Cons:
  "codeMapEntry (f # rest) b =
     (case codeMapEntry rest b of
        Some v \<Rightarrow> Some v
      | None \<Rightarrow> if codeName f = b then Some (codeVersion f) else None)"
  by (auto simp: codeMapEntry_def split: list.splits)

lemma codeMapEntry_nonempty:
  assumes "\<forall>f \<in> set existing. findMatch f \<noteq> None" "codeMapEntry existing b = Some v"
  shows "v \<noteq> []"
proof -
  let ?fs = "filter (\<lambda>e. codeName e = b) existing"
  from assms(2) have ne: "?fs \<noteq> []" and v: "v = codeVersion (last ?fs)"
    by (auto simp: codeMapEntry_def split: list.splits)
  from ne have "last ?fs \<in> set ?fs" by (rule last_in_set)
  then have "last ?fs \<in> set existing" by simp
  with assms(1) have "findMatch (last ?fs) \<noteq> None" by blast
  from findMatch_parts [OF this] v show ?thesis by simp
qed

lemma existingSonameMap_result:
  assumes "\<forall>f \<in> set existing. findMatch f \<noteq> None"
  shows "existingSonameMap existing m0 =
           Inr (\<lambda>b. case codeMapEntry existing b of None \<Rightarrow> m0 b | Some v \<Rightarrow> Some v)"
  using assms
proof (induction existing arbitrary: m0)
  case Nil
  then show ?case by (simp add: codeMapEntry_def)
next
  case (Cons f rest)
  from Cons.prems have "findMatch f \<noteq> None" by simp
  from findMatch_parts [OF this] have sp: "splitSoname f = Inr (codeName f, codeVersion f)" by simp
  from Cons.prems have "\<forall>f \<in> set rest. findMatch f \<noteq> None" by simp
  from Cons.IH [OF this] sp show ?case
    by (auto simp: codeMapEntry_Cons fun_eq_iff split: option.splits)
qed

lemma compareSonames_result:
  assumes ex: "\<forall>f \<in> set existing. findMatch f \<noteq> None"
    and new: "\<forall>f \<in> set new. findMatch f \<noteq> None"
  shows "compareSonames (codeMapEntry existing) new =
           Inr (firstError (map (codeOutcome existing) new))"
  using new
proof (induction new)
  case Nil
  then show ?case by simp
next
  case (Cons n rest)
  from Cons.prems have "findMatch n \<noteq> None" by simp
  from findMatch_parts [OF this] have sp: "splitSoname n = Inr (codeName n, codeVersion n)" by simp
  from Cons.prems have "\<forall>f \<in> set rest. findMatch f \<noteq> None" by simp
  from Cons.IH [OF this]
  have IH: "compareSonames (codeMapEntry existing) rest =
              Inr (firstError (map (codeOutcome existing) rest))" .
  show ?case
  proof (cases "codeMapEntry existing (codeName n)")
    case None
    then have "codeOutcome existing n = None" by (simp add: codeOutcome_def)
    with sp IH None show ?thesis by (simp add: mapIndex_def)
  next
    case (Some v)
    from codeMapEntry_nonempty [OF ex Some] have v: "v \<noteq> []" .
    have "codeOutcome existing n =
            (if v = codeVersion n then None
             else Some (sonameError (codeName n) v (codeVersion n)))"
      using Some by (simp add: codeOutcome_def)
    with sp IH Some v show ?thesis by (simp add: mapIndex_def)
  qed
qed

lemma checkSonamesMatch_no_panic:
  assumes "\<forall>f \<in> set existing. findMatch f \<noteq> None" and "\<forall>f \<in> set new. findMatch f \<noteq> None"
  shows "checkSonamesMatch existing new = Inr (firstError (map (codeOutcome existing) new))"
proof -
  have "(\<lambda>b. case codeMapEntry existing b of None \<Rightarrow> Map.empty b | Some v \<Rightarrow> Some v)
          = codeMapEntry existing"
    by (auto simp: fun_eq_iff split: option.splits)
  with existingSonameMap_result [OF assms(1), of Map.empty]
  have "existingSonameMap existing Map.empty = Inr (codeMapEntry existing)" by simp
  with compareSonames_result [OF assms] show ?thesis by (simp add: checkSonamesMatch_def)
qed







section \<open>Reading the manifest: valid and malformed lines\<close>

lemma strings_Split_no_sep: "sep \<notin> set s \<Longrightarrow> strings_Split s sep = [s]"
  by (induction s) auto


lemma strings_Split_length: "length (strings_Split s sep) = Suc (count_list s sep)"
  by (induction s) (auto split: list.splits)






text \<open>
  Lines that are not malformed are read one after the other: a blank line leaves the map
  as it is, any other sets the entry under its \<open>NAME\<close>. The first malformed line ends the
  read with its error.
\<close>

lemma lineName_parts:
  assumes "length (strings_Split l (CHR ''|'')) = 3"
  shows "lineName l = Some (strings_Split l (CHR ''|'') ! 1)"
proof -
  from assms obtain a n v where "strings_Split l (CHR ''|'') = [a, n, v]"
    by (cases "strings_Split l (CHR ''|'')" rule: list.exhaust)
       (auto simp: length_Suc_conv numeral_3_eq_3)
  then show ?thesis by (simp add: lineName_def)
qed

lemma scanManifest_wellformed:
  assumes "\<forall>l \<in> set lines. \<not> malformedLine l"
  shows "\<exists>rs'. (\<forall>rest. scanManifest (lines @ rest) rs = scanManifest rest rs')
             \<and> (\<forall>k. (\<forall>l \<in> set lines. lineName l \<noteq> Some k) \<longrightarrow> rs' k = rs k)"
  using assms
proof (induction lines arbitrary: rs)
  case Nil
  show ?case by (intro exI [of _ rs]) simp
next
  case (Cons l lines)
  from Cons.prems have wl: "\<not> malformedLine l" and wls: "\<forall>l \<in> set lines. \<not> malformedLine l"
    by simp_all
  have step: "\<exists>rs1. (\<forall>rest. scanManifest (l # rest) rs = scanManifest rest rs1)
                  \<and> (\<forall>k. lineName l \<noteq> Some k \<longrightarrow> rs1 k = rs k)"
  proof -
    show ?thesis
    proof (cases "strings_TrimSpace l = []")
      case True
      then have "\<forall>rest. scanManifest (l # rest) rs = scanManifest rest rs" by simp
      then show ?thesis by blast
    next
      case False
      with wl have p: "length (strings_Split l (CHR ''|'')) = 3"
        and v: "length (strings_Split (strings_Split l (CHR ''|'') ! 2) (CHR ''-'')) = 2"
        by (auto simp: malformedLine_def pipeMalformed_def versionMalformed_def)
      let ?parts = "strings_Split l (CHR ''|'')"
      let ?vp = "strings_Split (?parts ! 2) (CHR ''-'')"
      let ?pkg = "\<lparr>Arch = ?parts ! 0, Epoch = strings_TrimSuffix (strings_TrimPrefix (?vp ! 1) ''r'') ''.apk'',
                   Version = ?vp ! 0\<rparr>"
      from False p v
      have "\<forall>rest. scanManifest (l # rest) rs = scanManifest rest (rs(?parts ! 1 \<mapsto> ?pkg))"
        by (simp add: Let_def)
      moreover from lineName_parts [OF p]
      have "\<forall>k. lineName l \<noteq> Some k \<longrightarrow> (rs(?parts ! 1 \<mapsto> ?pkg)) k = rs k" by simp
      ultimately show ?thesis by blast
    qed
  qed
  then obtain rs1 where s1: "\<forall>rest. scanManifest (l # rest) rs = scanManifest rest rs1"
    and k1: "\<forall>k. lineName l \<noteq> Some k \<longrightarrow> rs1 k = rs k" by blast
  from Cons.IH [OF wls, of rs1]
  obtain rs' where s2: "\<forall>rest. scanManifest (lines @ rest) rs1 = scanManifest rest rs'"
    and k2: "\<forall>k. (\<forall>l \<in> set lines. lineName l \<noteq> Some k) \<longrightarrow> rs' k = rs1 k" by blast
  from s1 s2 have "\<forall>rest. scanManifest ((l # lines) @ rest) rs = scanManifest rest rs'" by simp
  moreover from k1 k2 have "\<forall>k. (\<forall>l \<in> set (l # lines). lineName l \<noteq> Some k) \<longrightarrow> rs' k = rs k"
    by simp
  ultimately show ?case by blast
qed


lemma scanManifest_first_malformed:
  assumes "\<forall>l \<in> set before. \<not> malformedLine l" and "malformedLine line"
  shows "scanManifest (before @ line # after) rs =
           Inl (if pipeMalformed line
                then ''expected 3 parts but found '' @ itoa (length (strings_Split line (CHR ''|'')))
                       @ '' when scanning '' @ line
                else ''expected 2 version parts but found ''
                       @ itoa (length (strings_Split (strings_Split line (CHR ''|'') ! 2) (CHR ''-''))))"
proof -
  from scanManifest_wellformed [OF assms(1), of rs]
  obtain rs' where "scanManifest (before @ line # after) rs = scanManifest (line # after) rs'"
    by blast
  moreover from assms(2) have "scanManifest (line # after) rs' =
           Inl (if pipeMalformed line
                then ''expected 3 parts but found '' @ itoa (length (strings_Split line (CHR ''|'')))
                       @ '' when scanning '' @ line
                else ''expected 2 version parts but found ''
                       @ itoa (length (strings_Split (strings_Split line (CHR ''|'') ! 2) (CHR ''-''))))"
    by (auto simp: malformedLine_def pipeMalformed_def versionMalformed_def Let_def)
  ultimately show ?thesis by simp
qed

lemma getNewPackages_first_malformed:
  assumes "scanLines sys (fs w) (PackageListFilename opts) = Inr (before @ line # after, scanErr)"
    and "\<forall>l \<in> set before. \<not> malformedLine l" and "malformedLine line"
  shows "getNewPackages sys opts order w =
           (Inl (if pipeMalformed line
                 then ''expected 3 parts but found '' @ itoa (length (strings_Split line (CHR ''|'')))
                        @ '' when scanning '' @ line
                 else ''expected 2 version parts but found ''
                        @ itoa (length (strings_Split (strings_Split line (CHR ''|'') ! 2) (CHR ''-'')))),
            w)"
  using assms(1) scanManifest_first_malformed [OF assms(2,3), of after Map.empty]
  by (simp add: getNewPackages_def)

lemma getNewPackages_scan_error_unread:
  assumes "scanLines sys (fs w) (PackageListFilename opts) = Inr (lines, scanErr)"
    and "\<forall>l \<in> set lines. \<not> malformedLine l"
  shows "\<exists>m w'. getNewPackages sys opts order w = (Inr m, w')"
proof -
  from scanManifest_wellformed [OF assms(2), of Map.empty]
  obtain rs where "scanManifest (lines @ []) Map.empty = scanManifest [] rs" by blast
  then have "scanManifest lines Map.empty = Inr rs" by simp
  with assms(1) show ?thesis
    by (cases "addSubpackages sys opts order rs w") (simp add: getNewPackages_def)
qed

text \<open>
  C7: a malformed line is meant to fail the whole read with an error that identifies the
  line. The read does fail at the first malformed line. When the line fails at the pipes
  the error gives the line: \<open>expected 3 parts but found 2 when scanning
  x86_64|hello-world\<close>. When the third field fails at the hyphens the error gives only the
  number of parts found: the lines \<open>x86_64|hello-world|0.0.2\<close> and \<open>x86_64|b|3.1\<close>, in
  different manifests, both give \<open>expected 2 version parts but found 1\<close>, which names
  neither.
\<close>

theorem getNewPackages_hyphen_error_omits_line:
  "fst (getNewPackages (exampleSys [''x86_64|a|1.0-r0'', ''x86_64|hello-world|0.0.2''] Map.empty Map.empty Map.empty Map.empty)
          exampleOptions [] emptyWorld)
     = Inl ''expected 2 version parts but found 1''
   \<and> fst (getNewPackages (exampleSys [''x86_64|a|1.0-r0'', ''x86_64|b|3.1'', ''x86_64|c|1.0-r0''] Map.empty Map.empty Map.empty Map.empty)
          exampleOptions [] emptyWorld)
     = Inl ''expected 2 version parts but found 1''
   \<and> fst (getNewPackages (exampleSys [''x86_64|a|1.0-r0'', ''x86_64|hello-world''] Map.empty Map.empty Map.empty Map.empty)
          exampleOptions [] emptyWorld)
     = Inl ''expected 3 parts but found 2 when scanning x86_64|hello-world''"
proof -
  let ?r1 = "fst (getNewPackages (exampleSys [''x86_64|a|1.0-r0'', ''x86_64|hello-world|0.0.2''] Map.empty Map.empty Map.empty Map.empty)
          exampleOptions [] emptyWorld)"
  let ?r2 = "fst (getNewPackages (exampleSys [''x86_64|a|1.0-r0'', ''x86_64|b|3.1'', ''x86_64|c|1.0-r0''] Map.empty Map.empty Map.empty Map.empty)
          exampleOptions [] emptyWorld)"
  let ?r3 = "fst (getNewPackages (exampleSys [''x86_64|a|1.0-r0'', ''x86_64|hello-world''] Map.empty Map.empty Map.empty Map.empty)
          exampleOptions [] emptyWorld)"
  have "isl ?r1 \<and> projl ?r1 = ''expected 2 version parts but found 1''" by code_simp
  then have r1: "?r1 = Inl ''expected 2 version parts but found 1''" by (cases ?r1) simp_all
  have "isl ?r2 \<and> projl ?r2 = ''expected 2 version parts but found 1''" by code_simp
  then have r2: "?r2 = Inl ''expected 2 version parts but found 1''" by (cases ?r2) simp_all
  have "isl ?r3 \<and> projl ?r3 = ''expected 3 parts but found 2 when scanning x86_64|hello-world''"
    by code_simp
  then have r3: "?r3 = Inl ''expected 3 parts but found 2 when scanning x86_64|hello-world''"
    by (cases ?r3) simp_all
  from r1 r2 r3 show ?thesis by (intro conjI)
qed

section \<open>Expanding the packages by their subpackages\<close>

lemma foldl_upd_key:
  "foldl (\<lambda>a name. a(name \<mapsto> v)) acc subs k = (if k \<in> set subs then Some v else acc k)"
  by (induction subs arbitrary: acc) auto

lemma fs_emit [simp]: "fs (emit e w) = fs w"
  by (simp add: emit_def)

lemma trace_emit [simp]: "trace (emit e w) = trace w @ [e]"
  by (simp add: emit_def)

lemma addSubpackagesLoop_fs: "fs (snd (addSubpackagesLoop sys opts m order acc w)) = fs w"
  by (induction order arbitrary: acc w) (auto simp: Let_def split: option.splits sum.splits)

lemma addSubpackagesLoop_key:
  "fst (addSubpackagesLoop sys opts m order acc w) k =
     (case filter (\<lambda>p. p \<in> dom m \<and> declares sys opts (fs w) p k) order of
        [] \<Rightarrow> acc k
      | d # ds \<Rightarrow> m (last (d # ds)))"
proof (induction order arbitrary: acc w)
  case Nil
  then show ?case by simp
next
  case (Cons p rest)
  let ?ds = "filter (\<lambda>p. p \<in> dom m \<and> declares sys opts (fs w) p k) rest"
  show ?case
  proof (cases "m p")
    case None
    then have "p \<notin> dom m" by auto
    with None Cons.IH [of acc w] show ?thesis by simp
  next
    case (Some pkg)
    then have dom: "p \<in> dom m" by auto
    show ?thesis
    proof (cases "recipeOf sys opts (fs w) p")
      case (Inl err)
      then have "\<not> declares sys opts (fs w) p k" by (simp add: declares_def)
      with Some Inl Cons.IH [of acc "emit (LogPrintf (''failed to read melange config '' @ Join [Dir opts, p @ ''.yaml''])) w"]
      show ?thesis by (simp add: recipeOf_def)
    next
      case (Inr subs)
      let ?acc = "foldl (\<lambda>a name. a(name \<mapsto> pkg)) acc subs"
      have d: "declares sys opts (fs w) p k = (k \<in> set subs)" using Inr by (simp add: declares_def)
      from Some Inr have
        "fst (addSubpackagesLoop sys opts m (p # rest) acc w) k
           = fst (addSubpackagesLoop sys opts m rest ?acc w) k"
        by (simp add: recipeOf_def)
      also have "\<dots> = (case ?ds of [] \<Rightarrow> ?acc k | d # ds \<Rightarrow> m (last (d # ds)))"
        by (rule Cons.IH)
      finally show ?thesis using d dom Some
        by (auto simp: foldl_upd_key split: list.splits)
    qed
  qed
qed

lemma addSubpackagesLoop_trace:
  "trace (snd (addSubpackagesLoop sys opts m order acc w)) =
     trace w @ map (\<lambda>p. LogPrintf (''failed to read melange config '' @ Join [Dir opts, p @ ''.yaml'']))
                 (filter (\<lambda>p. p \<in> dom m \<and> isl (recipeOf sys opts (fs w) p)) order)"
proof (induction order arbitrary: acc w)
  case Nil
  then show ?case by simp
next
  case (Cons p rest)
  show ?case
  proof (cases "m p")
    case None
    then have "p \<notin> dom m" by auto
    with None Cons.IH [of acc w] show ?thesis by simp
  next
    case (Some pkg)
    then have dom: "p \<in> dom m" by auto
    show ?thesis
    proof (cases "recipeOf sys opts (fs w) p")
      case (Inl err)
      with Some dom Cons.IH [of acc "emit (LogPrintf (''failed to read melange config '' @ Join [Dir opts, p @ ''.yaml''])) w"]
      show ?thesis by (simp add: recipeOf_def)
    next
      case (Inr subs)
      with Some dom Cons.IH [of "foldl (\<lambda>a name. a(name \<mapsto> pkg)) acc subs" w]
      show ?thesis by (simp add: recipeOf_def)
    qed
  qed
qed

lemma filter_none: "\<forall>x \<in> set xs. \<not> Q x \<Longrightarrow> filter Q xs = []"
  by (induction xs) simp_all

lemma filter_only_one:
  assumes "distinct xs" and "\<forall>x \<in> set xs. Q x \<longrightarrow> x = y"
  shows "filter Q xs = (if y \<in> set xs \<and> Q y then [y] else [])"
  using assms
proof (induction xs)
  case Nil
  then show ?case by simp
next
  case (Cons x xs)
  from Cons.prems have d: "distinct xs" and nx: "x \<notin> set xs"
    and all: "\<forall>z \<in> set xs. Q z \<longrightarrow> z = y" and hd: "Q x \<longrightarrow> x = y"
    by simp_all
  from Cons.IH [OF d all] have IH: "filter Q xs = (if y \<in> set xs \<and> Q y then [y] else [])" .
  show ?case
  proof (cases "Q x")
    case True
    with hd have xy: "x = y" by simp
    with nx have "y \<notin> set xs" by simp
    with IH have "filter Q xs = []" by simp
    with True xy show ?thesis by simp
  next
    case False
    with hd IH show ?thesis by (cases "x = y") simp_all
  qed
qed

text \<open>
  C6, as the code has it. Let \<open>order\<close> be the order in which the keys of the mapping are
  visited, \<open>P\<close> a package of the mapping and \<open>K\<close> either \<open>P\<close> itself or a subpackage that
  the recipe of \<open>P\<close> declares. When no other package of the mapping has a recipe that
  declares a subpackage named \<open>K\<close>, the expanded mapping has the key \<open>K\<close>, carrying the
  architecture, version and epoch of \<open>P\<close>: so \<open>P\<close>, \<open>Q\<close> and \<open>R\<close> for declared subpackages
  \<open>[Q, R]\<close>, and every entry of the input whose key no other package declares. A recipe
  that cannot be read is logged and skipped: the expansion returns a mapping in every
  case, and logs one line for each such recipe, in the order of the visit.
\<close>

theorem addSubpackages_expands:
  assumes "distinct order" and "set order = dom m"
    and "m P = Some a"
    and "K = P \<or> declares sys opts (fs w) P K"
    and "\<forall>P' \<in> dom m. P' \<noteq> P \<longrightarrow> \<not> declares sys opts (fs w) P' K"
  shows "fst (addSubpackages sys opts order m w) K = Some a
       \<and> trace (snd (addSubpackages sys opts order m w)) =
           trace w @ map (\<lambda>p. LogPrintf (''failed to read melange config '' @ Join [Dir opts, p @ ''.yaml'']))
                       (filter (\<lambda>p. isl (recipeOf sys opts (fs w) p)) order)
       \<and> fs (snd (addSubpackages sys opts order m w)) = fs w"
proof -
  let ?Q = "\<lambda>p. p \<in> dom m \<and> declares sys opts (fs w) p K"
  from assms(5) have "\<forall>x \<in> set order. ?Q x \<longrightarrow> x = P" by blast
  from filter_only_one [OF assms(1) this]
  have f: "filter ?Q order = (if P \<in> set order \<and> ?Q P then [P] else [])" .
  from assms(2,3) have P: "P \<in> set order" "P \<in> dom m" by auto
  have "fst (addSubpackages sys opts order m w) K = Some a"
  proof (cases "declares sys opts (fs w) P K")
    case True
    with f P have "filter ?Q order = [P]" by simp
    with assms(3) show ?thesis by (simp add: addSubpackages_def addSubpackagesLoop_key)
  next
    case False
    with f have "filter ?Q order = []" by simp
    moreover from False assms(4) have "K = P" by simp
    ultimately show ?thesis using assms(3) by (simp add: addSubpackages_def addSubpackagesLoop_key)
  qed
  moreover have "filter (\<lambda>p. p \<in> dom m \<and> isl (recipeOf sys opts (fs w) p)) order
                   = filter (\<lambda>p. isl (recipeOf sys opts (fs w) p)) order"
    using assms(2) by (intro filter_cong) auto
  ultimately show ?thesis
    by (simp add: addSubpackages_def addSubpackagesLoop_trace addSubpackagesLoop_fs)
qed

text \<open>
  The claim as stated has every entry of the input preserved. An entry whose key is also
  a subpackage declared by another package is overwritten with that package's
  architecture, version and epoch, whatever the order of the visit.
\<close>

theorem addSubpackages_overwrites_entry:
  "fst (addSubpackages (exampleSys [] exampleRecipes Map.empty Map.empty Map.empty) exampleOptions
          [''P'', ''Q''] [''P'' \<mapsto> pkgA, ''Q'' \<mapsto> pkgB] emptyWorld) ''Q'' = Some pkgA
   \<and> fst (addSubpackages (exampleSys [] exampleRecipes Map.empty Map.empty Map.empty) exampleOptions
          [''Q'', ''P''] [''P'' \<mapsto> pkgA, ''Q'' \<mapsto> pkgB] emptyWorld) ''Q'' = Some pkgA
   \<and> [''P'' \<mapsto> pkgA, ''Q'' \<mapsto> pkgB] ''Q'' = Some pkgB
   \<and> pkgA \<noteq> pkgB"
  by code_simp

theorem addSubpackages_expands_witness:
  "distinct [''P''] \<and> set [''P''] = dom [''P'' \<mapsto> pkgA]
   \<and> fst (addSubpackages (exampleSys [] exampleRecipes Map.empty Map.empty Map.empty) exampleOptions
          [''P''] [''P'' \<mapsto> pkgA] emptyWorld) ''R'' = Some pkgA"
proof -
  let ?sys = "exampleSys [] exampleRecipes Map.empty Map.empty Map.empty"
  have h1: "distinct [''P'']" by simp
  have h2: "set [''P''] = dom [''P'' \<mapsto> pkgA]" by simp
  have h3: "[''P'' \<mapsto> pkgA] ''P'' = Some pkgA" by simp
  have h4: "''R'' = ''P'' \<or> declares ?sys exampleOptions (fs emptyWorld) ''P'' ''R''"
    by code_simp
  have h5: "\<forall>P' \<in> dom [''P'' \<mapsto> pkgA]. P' \<noteq> ''P'' \<longrightarrow> \<not> declares ?sys exampleOptions (fs emptyWorld) P' ''R''"
    by simp
  from addSubpackages_expands [OF h1 h2 h3 h4 h5] h1 h2 show ?thesis by blast
qed

section \<open>Reading the manifest: the entry of a valid line\<close>





section \<open>Comparing a new package with the published one: what it does\<close>

lemma Base_cases:
  "Base p = ''.'' \<or> Base p = ''/'' \<or> (\<exists>x y. p = x @ Base p @ y)"
proof (cases "p = []")
  case True
  then show ?thesis by (simp add: Base_def)
next
  case False
  let ?stripped = "rev (dropWhile (\<lambda>c. c = CHR ''/'') (rev p))"
  let ?last = "rev (takeWhile (\<lambda>c. c \<noteq> CHR ''/'') (rev ?stripped))"
  have "rev p = takeWhile (\<lambda>c. c = CHR ''/'') (rev p) @ dropWhile (\<lambda>c. c = CHR ''/'') (rev p)"
    by simp
  then have p: "p = ?stripped @ rev (takeWhile (\<lambda>c. c = CHR ''/'') (rev p))"
    by (metis rev_append rev_rev_ident)
  have "rev ?stripped = takeWhile (\<lambda>c. c \<noteq> CHR ''/'') (rev ?stripped)
          @ dropWhile (\<lambda>c. c \<noteq> CHR ''/'') (rev ?stripped)"
    by simp
  then have "?stripped = rev (dropWhile (\<lambda>c. c \<noteq> CHR ''/'') (rev ?stripped)) @ ?last"
    by (metis rev_append rev_rev_ident)
  with p have "\<exists>x y. p = x @ ?last @ y" by (metis append.assoc)
  then show ?thesis using False by (auto simp: Base_def Let_def)
qed

lemma isSonameFile_findMatch:
  assumes "isSonameFile p"
  shows "findMatch p \<noteq> None"
proof -
  from assms obtain b m a where fm: "findMatch (Base p) = Some (b, m, a)"
    by (auto simp: isSonameFile_def reg_FindString_def split: option.splits)
  from findMatch_sound [OF fm] have bp: "Base p = b @ m @ a" and m: "inCodePattern m" by simp_all
  have "findMatch ''.'' = None" "findMatch ''/'' = None" by simp_all
  with fm have "Base p \<noteq> ''.''" "Base p \<noteq> ''/''" by auto
  with Base_cases [of p] obtain x y where "p = x @ Base p @ y" by blast
  with bp have "p = (x @ b) @ m @ (a @ y)" by simp
  with findMatch_complete [OF m, of "x @ b" "a @ y"] show ?thesis by simp
qed

lemma sonameFileList_match: "\<forall>f \<in> set (sonameFileList visited). findMatch f \<noteq> None"
  by (simp add: sonameFileList_def isSonameFile_findMatch)

lemma strings_Split_nonempty: "strings_Split s sep \<noteq> []"
  by (induction s) (auto split: list.splits)

lemma strings_Split_append_sep:
  "strings_Split (a @ sep # b) sep = strings_Split a sep @ strings_Split b sep"
proof (induction a)
  case Nil
  then show ?case by simp
next
  case (Cons c a)
  obtain p ps where "strings_Split a sep = p # ps"
    using strings_Split_nonempty [of a sep] by (cases "strings_Split a sep") auto
  with Cons show ?case by (auto split: list.splits)
qed

lemma strings_Join_Split: "strings_Join (strings_Split s sep) [sep] = s"
proof (induction s)
  case Nil
  then show ?case by simp
next
  case (Cons c s)
  obtain p ps where p: "strings_Split s sep = p # ps"
    using strings_Split_nonempty [of s sep] by (cases "strings_Split s sep") auto
  with Cons show ?case by (cases ps) auto
qed

lemma strings_Join_snoc:
  "xs \<noteq> [] \<Longrightarrow> strings_Join (xs @ [n]) sep = strings_Join xs sep @ sep @ n"
  by (induction xs sep rule: strings_Join.induct) auto

lemma foldl_cleanStep:
  "''..'' \<notin> set xs \<Longrightarrow> foldl (cleanStep rooted) acc xs = acc @ xs"
  by (induction xs arbitrary: acc) (auto simp: cleanStep_def)

lemma Join_child:
  assumes "cleanAbsolute dir" and "CHR ''/'' \<notin> set n"
    and "n \<noteq> []" and "n \<noteq> ''.''" and "n \<noteq> ''..''"
  shows "Join [dir, n] = dir @ ''/'' @ n"
proof -
  from assms(1) obtain cs where dir: "dir = CHR ''/'' # cs"
    and ok: "list_all (\<lambda>e. e \<noteq> [] \<and> e \<noteq> ''.'' \<and> e \<noteq> ''..'') (strings_Split cs (CHR ''/''))"
    by (auto simp: cleanAbsolute_def split: list.splits)
  let ?comps = "strings_Split cs (CHR ''/'')"
  let ?path = "dir @ ''/'' @ n"
  have split: "strings_Split ?path (CHR ''/'') = [] # ?comps @ [n]"
    using dir assms(2) by (simp add: strings_Split_append_sep strings_Split_no_sep)
  from ok have keep: "filter (\<lambda>e. e \<noteq> [] \<and> e \<noteq> ''.'') ?comps = ?comps"
    by (auto simp: list_all_iff intro: filter_True)
  have elems: "filter (\<lambda>e. e \<noteq> [] \<and> e \<noteq> ''.'') (strings_Split ?path (CHR ''/'')) = ?comps @ [n]"
    using split keep assms(3,4) by simp
  from ok assms(5) have "''..'' \<notin> set (?comps @ [n])" by (auto simp: list_all_iff)
  from foldl_cleanStep [OF this, of True "[]"]
  have fold: "foldl (cleanStep True) [] (?comps @ [n]) = ?comps @ [n]" by simp
  have "strings_Join (?comps @ [n]) ''/'' = strings_Join ?comps ''/'' @ ''/'' @ n"
    by (rule strings_Join_snoc) (rule strings_Split_nonempty)
  also have "strings_Join ?comps ''/'' = cs" by (rule strings_Join_Split)
  finally have join: "strings_Join (?comps @ [n]) ''/'' = cs @ ''/'' @ n" .
  have "Clean ?path = ''/'' @ cs @ ''/'' @ n"
    unfolding Clean_def Let_def elems using dir fold join by simp
  moreover have "Join [dir, n] = Clean ?path" using dir by (simp add: Join_def)
  ultimately show ?thesis using dir by simp
qed

lemma existingFilename_child:
  assumes "cleanAbsolute dir" and "CHR ''/'' \<notin> set (existingFilename q)"
  shows "Join [dir, existingFilename q] = dir @ ''/'' @ existingFilename q"
proof -
  have "length (existingFilename q) \<ge> 5" by (simp add: existingFilename_def)
  then have "existingFilename q \<noteq> []" "existingFilename q \<noteq> ''.''" "existingFilename q \<noteq> ''..''"
    by auto
  from Join_child [OF assms this] show ?thesis .
qed

text \<open>
  C10, as the code has it. Take a call of \<open>diff\<close> that gets as far as the download and
  completes it: the new archive is opened and unpacked, the scan finds a soname file, the
  index has the package, and the request, the creation of the file and the copy
  succeed. Let the temporary directory be given as a clean absolute path and let the
  name \<open>{name}-{version}.apk\<close> of the published archive hold no separator. Then the call
  does exactly this, in this order: it opens the new archive and unpacks it into the
  temporary directory, walks the temporary directory, requests the URL of the published
  archive, creates the file of that name directly below the temporary directory and
  copies the body into it, and walks the temporary directory again. Nothing else is
  unpacked: the second walk is of the file system that the first walk saw, with the
  downloaded file added. The call returns nil exactly when the comparison of the two
  lists of soname files finds no conflict.
\<close>

theorem diff_downloads_into_temp_dir:
  assumes "os_Open sys (fs w) (newApkFilename opts name apk) = Inr newFile"
    and "tar_Untar sys newFile (os_TempDir sys) (fs w) = (None, fs2)"
    and "sonameFileList (filepath_Walk sys fs2 (os_TempDir sys)) \<noteq> []"
    and "existingPackages name = Some q"
    and "http_Get sys (strings_ReplaceAll (ApkIndexURL opts) ''APKINDEX'' (existingFilename q)) = Inr body"
    and "cleanAbsolute (os_TempDir sys)"
    and "CHR ''/'' \<notin> set (existingFilename q)"
    and "os_Create sys (os_TempDir sys @ ''/'' @ existingFilename q) fs2 = Inr fs3"
    and "io_Copy sys (os_TempDir sys @ ''/'' @ existingFilename q) body fs3 = (None, fs4)"
  shows "trace (snd (diff sys opts name apk existingPackages w)) =
           trace w @ [Open (newApkFilename opts name apk),
                      Untar (newApkFilename opts name apk) (os_TempDir sys),
                      Walk (os_TempDir sys),
                      Get (strings_ReplaceAll (ApkIndexURL opts) ''APKINDEX'' (existingFilename q)),
                      Create (os_TempDir sys @ ''/'' @ existingFilename q),
                      Copy (os_TempDir sys @ ''/'' @ existingFilename q),
                      Walk (os_TempDir sys)]
       \<and> fs (snd (diff sys opts name apk existingPackages w)) = fs4
       \<and> (fst (diff sys opts name apk existingPackages w) = Inr None)
           = (checkSonamesMatch (sonameFileList (filepath_Walk sys fs4 (os_TempDir sys)))
                                (sonameFileList (filepath_Walk sys fs2 (os_TempDir sys))) = Inr None)"
proof -
  let ?tmp = "os_TempDir sys"
  let ?f = "newApkFilename opts name apk"
  let ?n = "existingFilename q"
  let ?out = "?tmp @ ''/'' @ ?n"
  let ?url = "strings_ReplaceAll (ApkIndexURL opts) ''APKINDEX'' ?n"
  let ?new = "sonameFileList (filepath_Walk sys fs2 ?tmp)"
  let ?w3 = "emit (Walk ?tmp) (emit (Untar ?f ?tmp) ((emit (Open ?f) w)\<lparr>fs := fs2\<rparr>))"
  have out: "Join [?tmp, ?n] = ?out" by (rule existingFilename_child [OF assms(6,7)])
  have n: "Name q @ ''-'' @ PkgVersion q @ ''.apk'' = ?n" by (simp add: existingFilename_def)
  have fs3: "fs ?w3 = fs2" by simp
  have t3: "trace ?w3 = trace w @ [Open ?f, Untar ?f ?tmp, Walk ?tmp]" by simp
  have dl: "downloadCurrentAPK sys opts ?n ?tmp ?w3
              = (None, emit (Copy ?out) ((emit (Create ?out) (emit (Get ?url) ?w3))\<lparr>fs := fs4\<rparr>))"
    using assms(5,8,9) out fs3 by (simp add: downloadCurrentAPK_def Let_def)
  let ?w6 = "emit (Copy ?out) ((emit (Create ?out) (emit (Get ?url) ?w3))\<lparr>fs := fs4\<rparr>)"
  have fs6: "fs ?w6 = fs4" by simp
  have t6: "trace ?w6 = trace w @ [Open ?f, Untar ?f ?tmp, Walk ?tmp, Get ?url, Create ?out, Copy ?out]"
    by simp
  let ?existing = "sonameFileList (filepath_Walk sys fs4 ?tmp)"
  let ?w7 = "emit (Walk ?tmp) ?w6"
  have t7: "trace ?w7 = trace w @ [Open ?f, Untar ?f ?tmp, Walk ?tmp, Get ?url, Create ?out, Copy ?out, Walk ?tmp]"
    by simp
  have fs7: "fs ?w7 = fs4" by simp
  have d: "diff sys opts name apk existingPackages w = diffExisting sys opts name q ?new ?tmp ?w3"
    using assms(1-4) by (simp add: diff_def Let_def newApkFilename_def getSonameFiles_def)
  have "snd (diffExisting sys opts name q ?new ?tmp ?w3) = ?w7
      \<and> (fst (diffExisting sys opts name q ?new ?tmp ?w3) = Inr None)
          = (checkSonamesMatch ?existing ?new = Inr None)"
  proof (cases "checkSonamesMatch ?existing ?new")
    case (Inl f)
    then show ?thesis
      unfolding diffExisting_def Let_def n dl by (simp add: getSonameFiles_def)
  next
    case (Inr r)
    then show ?thesis
      unfolding diffExisting_def Let_def n dl by (cases r) (simp_all add: getSonameFiles_def)
  qed
  with d t7 fs7 show ?thesis by (simp only:)
qed

theorem diff_downloads_into_temp_dir_witness:
  "trace (snd (diff (exampleSys [] Map.empty helloIndex helloLocal helloRemote) exampleOptions
                    ''hello-world'' helloNew helloIndex emptyWorld))
     = [Open ''packages/x86_64/hello-world-0.0.2-r0.apk'',
        Untar ''packages/x86_64/hello-world-0.0.2-r0.apk'' ''/tmp'',
        Walk ''/tmp'',
        Get ''https://packages.wolfi.dev/os/x86_64/hello-world-0.0.1.apk.tar.gz'',
        Create ''/tmp/hello-world-0.0.1.apk'',
        Copy ''/tmp/hello-world-0.0.1.apk'',
        Walk ''/tmp'']
   \<and> checkSonamesMatch [''/tmp/usr/lib/libfoo.so.2''] [''/tmp/usr/lib/libfoo.so.2''] = Inr None
   \<and> fst (diff (exampleSys [] Map.empty helloIndex helloLocal helloRemote) exampleOptions
              ''hello-world'' helloNew helloIndex emptyWorld) = Inr None"
proof -
  let ?sys = "exampleSys [] Map.empty helloIndex helloLocal helloRemote"
  let ?q = "\<lparr>Name = ''hello-world'', PkgVersion = ''0.0.1''\<rparr>"
  let ?fs2 = "[''/tmp/usr/lib/libfoo.so.2'']"
  let ?fs3 = "[''/tmp/usr/lib/libfoo.so.2'', ''/tmp/hello-world-0.0.1.apk'']"
  have e1: "newApkFilename exampleOptions ''hello-world'' helloNew
              = ''packages/x86_64/hello-world-0.0.2-r0.apk''"
    by code_simp
  have e2: "os_TempDir ?sys = ''/tmp''" by code_simp
  have e3: "existingFilename ?q = ''hello-world-0.0.1.apk''" by code_simp
  have e4: "strings_ReplaceAll (ApkIndexURL exampleOptions) ''APKINDEX'' ''hello-world-0.0.1.apk''
              = ''https://packages.wolfi.dev/os/x86_64/hello-world-0.0.1.apk.tar.gz''"
    by code_simp
  have e5: "trace emptyWorld = []" by code_simp
  have e6: "sonameFileList (filepath_Walk ?sys ?fs2 ''/tmp'') = [''/tmp/usr/lib/libfoo.so.2'']"
    by code_simp
  have e7: "sonameFileList (filepath_Walk ?sys ?fs3 ''/tmp'') = [''/tmp/usr/lib/libfoo.so.2'']"
    by code_simp
  have e8: "checkSonamesMatch [''/tmp/usr/lib/libfoo.so.2''] [''/tmp/usr/lib/libfoo.so.2''] = Inr None"
    by code_simp
  have h1: "os_Open ?sys (fs emptyWorld) (newApkFilename exampleOptions ''hello-world'' helloNew)
              = Inr ''usr/lib/libfoo.so.2''"
    by code_simp
  have h2: "tar_Untar ?sys ''usr/lib/libfoo.so.2'' (os_TempDir ?sys) (fs emptyWorld) = (None, ?fs2)"
    by code_simp
  have h3: "sonameFileList (filepath_Walk ?sys ?fs2 (os_TempDir ?sys)) \<noteq> []"
    by code_simp
  have h4: "helloIndex ''hello-world'' = Some ?q" by (simp add: helloIndex_def)
  have h5: "http_Get ?sys (strings_ReplaceAll (ApkIndexURL exampleOptions) ''APKINDEX'' (existingFilename ?q))
              = Inr ''usr/lib/libfoo.so.1''"
    by code_simp
  have h6: "cleanAbsolute (os_TempDir ?sys)" by code_simp
  have h7: "CHR ''/'' \<notin> set (existingFilename ?q)" by code_simp
  have h8: "os_Create ?sys (os_TempDir ?sys @ ''/'' @ existingFilename ?q) ?fs2 = Inr ?fs3"
    by code_simp
  have h9: "io_Copy ?sys (os_TempDir ?sys @ ''/'' @ existingFilename ?q) ''usr/lib/libfoo.so.1'' ?fs3
              = (None, ?fs3)"
    by code_simp
  from diff_downloads_into_temp_dir
         [where existingPackages = helloIndex and name = "''hello-world''", OF h1 h2 h3 h4 h5 h6 h7 h8 h9]
  show ?thesis unfolding e1 e2 e3 e4 e5 e6 e7 e8 by simp
qed

text \<open>
  The claim as stated speaks of every call. A call for a package whose new archive ships
  no soname file returns after the first walk: nothing is downloaded and there is no
  second scan. And the published archive is written below the temporary directory only
  when its name holds no \<open>..\<close> element: for the index entry with the name
  \<open>../etc/cron.d/x\<close> and the version \<open>1\<close> the file created is \<open>/etc/cron.d/x-1.apk\<close>.
\<close>

theorem diff_download_skipped_or_outside:
  "trace (snd (diff (exampleSys [] Map.empty Map.empty threeLocal Map.empty) exampleOptions
                    ''b'' pkgA [''b'' \<mapsto> \<lparr>Name = ''b'', PkgVersion = ''0.9''\<rparr>] emptyWorld))
     = [Open ''packages/x86_64/b-1.0-r0.apk'',
        Untar ''packages/x86_64/b-1.0-r0.apk'' ''/tmp'',
        Walk ''/tmp'']
   \<and> trace (snd (diff (exampleSys [] Map.empty Map.empty helloLocal
                        [''https://packages.wolfi.dev/os/x86_64/../etc/cron.d/x-1.apk.tar.gz'' \<mapsto> ''body''])
                    exampleOptions ''hello-world'' helloNew
                    [''hello-world'' \<mapsto> \<lparr>Name = ''../etc/cron.d/x'', PkgVersion = ''1''\<rparr>] emptyWorld))
     = [Open ''packages/x86_64/hello-world-0.0.2-r0.apk'',
        Untar ''packages/x86_64/hello-world-0.0.2-r0.apk'' ''/tmp'',
        Walk ''/tmp'',
        Get ''https://packages.wolfi.dev/os/x86_64/../etc/cron.d/x-1.apk.tar.gz'',
        Create ''/etc/cron.d/x-1.apk'',
        Copy ''/etc/cron.d/x-1.apk'',
        Walk ''/tmp'']"
  by code_simp

text \<open>
  C8, as the code has it: for a package whose name is absent from the index, once its new
  archive has been opened and unpacked, \<open>diff\<close> returns nil, requests nothing from the
  network, and logs the skip when the scan found a soname file (it returns nil without
  the log line when the scan found none).
\<close>

theorem diff_no_existing_package:
  assumes "existingPackages name = None"
    and "os_Open sys (fs w) (newApkFilename opts name apk) = Inr newFile"
    and "tar_Untar sys newFile (os_TempDir sys) (fs w) = (None, fs2)"
  shows "fst (diff sys opts name apk existingPackages w) = Inr None
       \<and> trace (snd (diff sys opts name apk existingPackages w)) =
           trace w @ [Open (newApkFilename opts name apk),
                      Untar (newApkFilename opts name apk) (os_TempDir sys),
                      Walk (os_TempDir sys)]
             @ (if sonameFileList (filepath_Walk sys fs2 (os_TempDir sys)) = [] then []
                else [LoggerPrintf (skipMessage name)])
       \<and> fs (snd (diff sys opts name apk existingPackages w)) = fs2"
  using assms
  by (simp add: diff_def Let_def newApkFilename_def getSonameFiles_def emit_def skipMessage_def)

theorem diff_no_existing_package_witness:
  "Map.empty ''hello-world'' = None
   \<and> os_Open (exampleSys [] Map.empty Map.empty helloLocal Map.empty) (fs emptyWorld)
         (newApkFilename exampleOptions ''hello-world'' helloNew) = Inr ''usr/lib/libfoo.so.2''
   \<and> tar_Untar (exampleSys [] Map.empty Map.empty helloLocal Map.empty) ''usr/lib/libfoo.so.2''
         (os_TempDir (exampleSys [] Map.empty Map.empty helloLocal Map.empty)) (fs emptyWorld)
       = (None, [''/tmp/usr/lib/libfoo.so.2''])
   \<and> fst (diff (exampleSys [] Map.empty Map.empty helloLocal Map.empty) exampleOptions
              ''hello-world'' helloNew Map.empty emptyWorld) = Inr None
   \<and> trace (snd (diff (exampleSys [] Map.empty Map.empty helloLocal Map.empty) exampleOptions
                     ''hello-world'' helloNew Map.empty emptyWorld))
       = [Open ''packages/x86_64/hello-world-0.0.2-r0.apk'',
          Untar ''packages/x86_64/hello-world-0.0.2-r0.apk'' ''/tmp'',
          Walk ''/tmp'',
          LoggerPrintf ''no existing package found for hello-world, skipping so name check'']"
proof -
  let ?sys = "exampleSys [] Map.empty Map.empty helloLocal Map.empty"
  have h1: "(Map.empty :: string \<rightharpoonup> Package) ''hello-world'' = None" by simp
  have h2: "os_Open ?sys (fs emptyWorld) (newApkFilename exampleOptions ''hello-world'' helloNew)
              = Inr ''usr/lib/libfoo.so.2''"
    by code_simp
  have h3: "tar_Untar ?sys ''usr/lib/libfoo.so.2'' (os_TempDir ?sys) (fs emptyWorld)
              = (None, [''/tmp/usr/lib/libfoo.so.2''])"
    by code_simp
  have e1: "newApkFilename exampleOptions ''hello-world'' helloNew
              = ''packages/x86_64/hello-world-0.0.2-r0.apk''"
    by code_simp
  have e2: "os_TempDir ?sys = ''/tmp''" by code_simp
  have e3: "sonameFileList (filepath_Walk ?sys [''/tmp/usr/lib/libfoo.so.2''] ''/tmp'') \<noteq> []"
    by code_simp
  have e4: "skipMessage ''hello-world''
              = ''no existing package found for hello-world, skipping so name check''"
    by code_simp
  have e5: "trace emptyWorld = []" by code_simp
  from diff_no_existing_package [OF h1 h2 h3] e1 e2 e3 e4 e5 h1 h2 h3
  show ?thesis by simp
qed

text \<open>
  The claim as stated has \<open>diff\<close> never return an error for a package absent from the
  index. The index is consulted only after the new archive has been read: when the
  archive cannot be opened, \<open>diff\<close> returns that error.
\<close>

theorem diff_unreadable_archive:
  "Map.empty ''hello-world'' = None
   \<and> fst (diff (exampleSys [] Map.empty Map.empty Map.empty Map.empty) exampleOptions
              ''hello-world'' helloNew Map.empty emptyWorld)
       = Inr (Some ''failed to read packages/x86_64/hello-world-0.0.2-r0.apk: no such file or directory'')"
  by code_simp

text \<open>
  C9: the published archive is meant to be downloaded, extracted and scanned. \<open>diff\<close>
  downloads it, from the URL made by replacing \<open>APKINDEX\<close> in the index URL with
  \<open>{name}-{version}.apk\<close>, and writes it into the temporary directory, but never unpacks
  it. Here the new \<open>hello-world\<close> ships \<open>libfoo.so.2\<close> and the published one
  \<open>libfoo.so.1\<close>: the only archive unpacked is the new one, the second walk finds the new
  package's own \<open>libfoo.so.2\<close> again, and \<open>diff\<close> returns nil.
\<close>

theorem diff_existing_never_extracted:
  "fst (diff (exampleSys [] Map.empty helloIndex helloLocal helloRemote) exampleOptions
          ''hello-world'' helloNew helloIndex emptyWorld) = Inr None
   \<and> trace (snd (diff (exampleSys [] Map.empty helloIndex helloLocal helloRemote) exampleOptions
                     ''hello-world'' helloNew helloIndex emptyWorld))
       = [Open ''packages/x86_64/hello-world-0.0.2-r0.apk'',
          Untar ''packages/x86_64/hello-world-0.0.2-r0.apk'' ''/tmp'',
          Walk ''/tmp'',
          Get ''https://packages.wolfi.dev/os/x86_64/hello-world-0.0.1.apk.tar.gz'',
          Create ''/tmp/hello-world-0.0.1.apk'',
          Copy ''/tmp/hello-world-0.0.1.apk'',
          Walk ''/tmp'']
   \<and> fs (snd (diff (exampleSys [] Map.empty helloIndex helloLocal helloRemote) exampleOptions
                  ''hello-world'' helloNew helloIndex emptyWorld))
       = [''/tmp/usr/lib/libfoo.so.2'', ''/tmp/hello-world-0.0.1.apk'']"
  by code_simp

lemma diffExisting_no_panic:
  assumes "\<forall>f \<in> set new. findMatch f \<noteq> None"
  shows "\<exists>r. fst (diffExisting sys opts name q new dir w) = Inr r"
proof -
  let ?d = "downloadCurrentAPK sys opts (Name q @ ''-'' @ PkgVersion q @ ''.apk'') dir w"
  obtain r w1 where d: "?d = (r, w1)" by (cases ?d) auto
  show ?thesis
  proof (cases r)
    case (Some err)
    with d show ?thesis by (simp add: diffExisting_def Let_def)
  next
    case None
    let ?existing = "sonameFileList (filepath_Walk sys (fs w1) dir)"
    from checkSonamesMatch_no_panic [OF sonameFileList_match assms]
    have "checkSonamesMatch ?existing new = Inr (firstError (map (codeOutcome ?existing) new))" .
    with d None show ?thesis
      by (simp add: diffExisting_def Let_def getSonameFiles_def split: option.splits)
  qed
qed

lemma diff_no_panic: "\<exists>r. fst (diff sys opts name apk existingPackages w) = Inr r"
proof -
  let ?f = "newApkFilename opts name apk"
  let ?tmp = "os_TempDir sys"
  show ?thesis
  proof (cases "os_Open sys (fs w) ?f")
    case (Inl err)
    then show ?thesis by (simp add: diff_def Let_def newApkFilename_def)
  next
    case (Inr newFile)
    obtain untarErr fs2 where u: "tar_Untar sys newFile ?tmp (fs w) = (untarErr, fs2)"
      by (cases "tar_Untar sys newFile ?tmp (fs w)") auto
    let ?new = "sonameFileList (filepath_Walk sys fs2 ?tmp)"
    let ?w3 = "emit (Walk ?tmp) (emit (Untar ?f ?tmp) ((emit (Open ?f) w)\<lparr>fs := fs2\<rparr>))"
    show ?thesis
    proof (cases untarErr)
      case (Some err)
      with Inr u show ?thesis by (simp add: diff_def Let_def newApkFilename_def)
    next
      case None
      show ?thesis
      proof (cases "existingPackages name")
        case None': None
        with Inr u None show ?thesis
          by (simp add: diff_def Let_def newApkFilename_def getSonameFiles_def)
      next
        case (Some q)
        from diffExisting_no_panic [OF sonameFileList_match, of sys opts name q _ ?tmp ?w3]
        obtain r where "fst (diffExisting sys opts name q ?new ?tmp ?w3) = Inr r" by blast
        with Inr u None Some show ?thesis
          by (simp add: diff_def Let_def newApkFilename_def getSonameFiles_def emit_def)
      qed
    qed
  qed
qed

section \<open>The whole check: what is aggregated\<close>

lemma Sprintf0_no_percent: "CHR ''%'' \<notin> set s \<Longrightarrow> Sprintf0 s = s"
  by (induction s) auto

lemma checkLoop_findings:
  "fst (checkLoop sys opts newPackages existingPackages order errs w)
     = Inr (errs @ map Sprintf0 (findings sys opts newPackages existingPackages order w))"
proof (induction order arbitrary: errs w)
  case Nil
  then show ?case by simp
next
  case (Cons packageName rest)
  show ?case
  proof (cases "newPackages packageName")
    case None
    with Cons.IH show ?thesis by simp
  next
    case (Some newAPK)
    let ?d = "diff sys opts packageName newAPK existingPackages
                (emit (LoggerPrintf (''checking '' @ packageName)) w)"
    from diff_no_panic [of sys opts packageName newAPK existingPackages
        "emit (LoggerPrintf (''checking '' @ packageName)) w"]
    obtain r where r: "fst ?d = Inr r" by blast
    obtain w' where d: "?d = (Inr r, w')" using r by (cases ?d) auto
    show ?thesis
    proof (cases r)
      case None
      with Some d Cons.IH [of errs w'] show ?thesis by simp
    next
      case (Some err)
      with \<open>newPackages packageName = Some newAPK\<close> d Cons.IH [of "errs @ [Sprintf0 err]" w']
      show ?thesis by simp
    qed
  qed
qed

lemma CheckSoName_findings:
  assumes "GetApkPackages sys (ApkIndexURL opts) = Inr existingPackages"
    and "getNewPackages sys opts order1 w = (Inr newPackages, w1)"
  shows "fst (CheckSoName sys opts order1 order2 w)
           = Inr (WrapErrors (map Sprintf0 (findings sys opts newPackages existingPackages order2 w1)))"
proof -
  let ?loop = "checkLoop sys opts newPackages existingPackages order2 [] w1"
  from checkLoop_findings [of sys opts newPackages existingPackages order2 "[]" w1]
  obtain w2 where "?loop = (Inr (map Sprintf0 (findings sys opts newPackages existingPackages order2 w1)), w2)"
    by (cases ?loop) auto
  with assms show ?thesis by (simp add: CheckSoName_def)
qed

lemma findings_single:
  assumes "newPackages name = Some apk"
    and "fst (diff sys opts name apk existingPackages (emit (LoggerPrintf (''checking '' @ name)) w))
           = Inr (Some err)"
  shows "findings sys opts newPackages existingPackages [name] w = [err]"
proof -
  let ?d = "diff sys opts name apk existingPackages (emit (LoggerPrintf (''checking '' @ name)) w)"
  from assms(2) obtain w' where "?d = (Inr (Some err), w')" by (cases ?d) auto
  with assms(1) show ?thesis by simp
qed

lemma CheckSoName_example:
  "fst (CheckSoName (exampleSys threeLines Map.empty Map.empty threeLocal Map.empty) exampleOptions
          [''a'', ''b'', ''c''] [''a'', ''b'', ''c''] emptyWorld)
     = Inr (Some (''failed to read packages/x86_64/a-1.0-r0.apk: no such file or directory''
                  @ [newline]
                  @ ''failed to read packages/x86_64/c-1.0-r0.apk: no such file or directory''))"
  by code_simp

text \<open>
  C2: every failing package is meant to contribute its error text as it is.
  \<open>CheckSoName\<close> passes the text to \<open>fmt.Errorf\<close> as the format, so a percent sign in it
  starts a directive. Here the index URL holds \<open>%2F\<close> and the download fails: the error
  that \<open>diff\<close> returns names the URL, and the finding in the aggregate reads
  \<open>%!F(MISSING)\<close> in its place.
\<close>

theorem CheckSoName_percent_in_finding:
  "fst (diff (exampleSys [''x86_64|hello-world|0.0.2-r0.apk''] Map.empty helloIndex helloLocal Map.empty)
          percentOptions ''hello-world'' helloNew helloIndex
          (emit (LoggerPrintf ''checking hello-world'')
             (emit (LogPrintf ''failed to read melange config hello-world.yaml'') emptyWorld)))
     = Inr (Some ''failed to download hello-world using base URL https://apk.example/os%2Fx86_64/APKINDEX: failed to get https://apk.example/os%2Fx86_64/hello-world-0.0.1.apk: no such host'')
   \<and> fst (CheckSoName (exampleSys [''x86_64|hello-world|0.0.2-r0.apk''] Map.empty helloIndex helloLocal Map.empty)
          percentOptions [''hello-world''] [''hello-world''] emptyWorld)
     = Inr (Some ''failed to download hello-world using base URL https://apk.example/os%!F(MISSING)x86_64/APKINDEX: failed to get https://apk.example/os%!F(MISSING)x86_64/hello-world-0.0.1.apk: no such host'')"
proof -
  let ?sys = "exampleSys [''x86_64|hello-world|0.0.2-r0.apk''] Map.empty helloIndex helloLocal Map.empty"
  let ?w1 = "emit (LogPrintf ''failed to read melange config hello-world.yaml'') emptyWorld"
  let ?err = "''failed to download hello-world using base URL https://apk.example/os%2Fx86_64/APKINDEX: failed to get https://apk.example/os%2Fx86_64/hello-world-0.0.1.apk: no such host''"
  let ?np = "[''hello-world'' \<mapsto> helloNew]"
  have idx: "GetApkPackages ?sys (ApkIndexURL percentOptions) = Inr helloIndex"
    by (simp add: exampleSys_def)
  have lines: "scanLines ?sys (fs emptyWorld) (PackageListFilename percentOptions)
                 = Inr ([''x86_64|hello-world|0.0.2-r0.apk''], None)"
    by (simp add: exampleSys_def)
  have scan: "scanManifest [''x86_64|hello-world|0.0.2-r0.apk''] Map.empty = Inr ?np"
    by (simp add: strings_TrimSpace_def isSpace_def strings_TrimPrefix_def strings_TrimSuffix_def
        helloNew_def)
  have join: "Join [Dir percentOptions, ''hello-world'' @ ''.yaml''] = ''hello-world.yaml''"
    by code_simp
  have "ReadMelangeConfig ?sys (fs emptyWorld) ''hello-world.yaml'' = Inl ''no such file or directory''"
    by (simp add: exampleSys_def)
  with join have sub: "addSubpackages ?sys percentOptions [''hello-world''] ?np emptyWorld = (?np, ?w1)"
    by (simp add: addSubpackages_def)
  from lines scan sub
  have new: "getNewPackages ?sys percentOptions [''hello-world''] emptyWorld = (Inr ?np, ?w1)"
    by (simp add: getNewPackages_def)
  have d: "fst (diff ?sys percentOptions ''hello-world'' helloNew helloIndex
                  (emit (LoggerPrintf (''checking '' @ ''hello-world'')) ?w1)) = Inr (Some ?err)"
    by code_simp
  have np: "?np ''hello-world'' = Some helloNew" by simp
  from findings_single [of ?np "''hello-world''" helloNew ?sys percentOptions helloIndex ?w1 ?err] np d
  have f: "findings ?sys percentOptions ?np helloIndex [''hello-world''] ?w1 = [?err]" by simp
  have sp: "Sprintf0 ?err = ''failed to download hello-world using base URL https://apk.example/os%!F(MISSING)x86_64/APKINDEX: failed to get https://apk.example/os%!F(MISSING)x86_64/hello-world-0.0.1.apk: no such host''"
    by code_simp
  from CheckSoName_findings [OF idx new, of "[''hello-world'']"] f sp
  have "fst (CheckSoName ?sys percentOptions [''hello-world''] [''hello-world''] emptyWorld)
          = Inr (Some ''failed to download hello-world using base URL https://apk.example/os%!F(MISSING)x86_64/APKINDEX: failed to get https://apk.example/os%!F(MISSING)x86_64/hello-world-0.0.1.apk: no such host'')"
    by (simp add: WrapErrors_def)
  with d show ?thesis by simp
qed

end
